theory Spec2Isabelle
  imports Complex_Main "HOL-Library.Multiset"
begin

section \<open>SubreadTaggerNode: the subread/duplex reassembly barrier\<close>

text \<open>
  The model follows \<^verbatim>\<open>src/dorado/read_pipeline/SubreadTaggerNode.cpp\<close>.
  The declarations of \<^verbatim>\<open>ReadCommon\<close>, \<^verbatim>\<open>SimplexRead\<close>, \<^verbatim>\<open>DuplexRead\<close> and
  \<^verbatim>\<open>Message\<close> live in headers outside the modelled sources; the records below hold the
  fields the node reads or writes. Counters of type \<^verbatim>\<open>size_t\<close> are natural numbers:
  they are sizes of vectors held in memory and sums of per-read pair counts, far from
  \<open>2 ^ 64\<close> in every run of the program.
\<close>

type_synonym tag = nat

record read_common =
  read_id :: string
  read_tag :: tag
  split_count :: nat
  subread_id :: nat
  is_duplex :: bool

record simplex_read = read_common +
  num_duplex_candidate_pairs :: nat

type_synonym duplex_read = read_common

text \<open>
  \<^verbatim>\<open>Message\<close> is a variant. \<open>SimplexReadPtr\<close> and \<open>DuplexReadPtr\<close> are its two read
  alternatives; \<open>OtherMessage i\<close> is any other alternative, \<open>i\<close> being the variant index
  that the warning prints.
\<close>

datatype message =
    SimplexReadPtr simplex_read
  | DuplexReadPtr duplex_read
  | OtherMessage nat

fun is_read_message :: "message \<Rightarrow> bool" where
  "is_read_message (SimplexReadPtr _) = True"
| "is_read_message (DuplexReadPtr _) = True"
| "is_read_message (OtherMessage _) = False"

text \<open>The common part of a read message; only called on read messages.\<close>

fun get_read_common_data :: "message \<Rightarrow> read_common" where
  "get_read_common_data (SimplexReadPtr s) = read_common.truncate s"
| "get_read_common_data (DuplexReadPtr d) = d"

text \<open>\<^verbatim>\<open>std::get\<close> on the wrong alternative throws \<^verbatim>\<open>std::bad_variant_access\<close>.\<close>

datatype error = BadVariantAccess

text \<open>
  The members of the node. \<open>m_updated_read_tags\<close> is the set of tags to reconcile;
  the three maps are keyed by tag.
\<close>

record tagger =
  m_subread_groups :: "tag \<rightharpoonup> simplex_read list"
  m_full_subread_groups :: "tag \<rightharpoonup> simplex_read list \<times> nat"
  m_duplex_reads :: "tag \<rightharpoonup> duplex_read list"
  m_updated_read_tags :: "tag set"

definition tagger_init :: tagger where
  "tagger_init =
     \<lparr>m_subread_groups = Map.empty, m_full_subread_groups = Map.empty,
      m_duplex_reads = Map.empty, m_updated_read_tags = {}\<rparr>"

text \<open>\<^verbatim>\<open>m[k]\<close> on a \<^verbatim>\<open>std::map\<close> of vectors: the stored vector, or a fresh empty one.\<close>

definition at_or_empty :: "(tag \<rightharpoonup> 'a list) \<Rightarrow> tag \<Rightarrow> 'a list" where
  "at_or_empty m k = (case m k of None \<Rightarrow> [] | Some xs \<Rightarrow> xs)"

text \<open>
  The \<^verbatim>\<open>std::accumulate\<close> of lines 41 to 45, with the lambda as written:
  the pair count of the subread plus the running total.
\<close>

definition num_expected_duplex_of :: "simplex_read list \<Rightarrow> nat" where
  "num_expected_duplex_of extracted_subreads =
     foldl (\<lambda>running_total subread. num_duplex_candidate_pairs subread + running_total)
       0 extracted_subreads"

text \<open>
  One iteration of the loop of \<^verbatim>\<open>worker_thread\<close> (lines 13 to 61) on the message taken
  from the input queue: the new state and the messages sent to the sink, in order, or the
  exception that ends the thread.
\<close>

definition worker_thread_step :: "message \<Rightarrow> tagger \<Rightarrow> error + tagger \<times> message list" where
  "worker_thread_step message st =
     (if \<not> is_read_message message then Inr (st, [])
      else
        let read_common = get_read_common_data message;
            tag = read_tag read_common;
            count = split_count read_common
        in if is_duplex read_common then
             (case message of
                DuplexReadPtr d \<Rightarrow>
                  Inr (st\<lparr>m_duplex_reads :=
                             (m_duplex_reads st)(tag \<mapsto>
                                at_or_empty (m_duplex_reads st) tag @ [d]),
                          m_updated_read_tags := insert tag (m_updated_read_tags st)\<rparr>,
                       [])
              | _ \<Rightarrow> Inl BadVariantAccess)
           else
             (case message of
                SimplexReadPtr read \<Rightarrow>
                  let subreads = at_or_empty (m_subread_groups st) tag @ [read]
                  in if length subreads \<noteq> count then
                       Inr (st\<lparr>m_subread_groups :=
                                  (m_subread_groups st)(tag \<mapsto> subreads)\<rparr>, [])
                     else
                       let extracted_subreads = subreads;
                           st1 = st\<lparr>m_subread_groups :=
                                      (m_subread_groups st)(tag := None)\<rparr>;
                           num_expected_duplex = num_expected_duplex_of extracted_subreads
                       in if num_expected_duplex = 0 then
                            Inr (st1, map SimplexReadPtr extracted_subreads)
                          else
                            Inr (st1\<lparr>m_full_subread_groups :=
                                        (m_full_subread_groups st1)(tag \<mapsto>
                                           (extracted_subreads, num_expected_duplex)),
                                     m_updated_read_tags :=
                                        insert tag (m_updated_read_tags st1)\<rparr>,
                                 [])
              | _ \<Rightarrow> Inl BadVariantAccess))"

text \<open>
  The emission of a complete family (lines 96 to 109): every subread with the corrected
  \<open>split_count\<close>, then every duplex read with the corrected \<open>split_count\<close> and a
  \<open>subread_id\<close> counted up from the number of subreads.
\<close>

fun tag_duplex_reads :: "nat \<Rightarrow> nat \<Rightarrow> duplex_read list \<Rightarrow> message list" where
  "tag_duplex_reads subread_count index [] = []"
| "tag_duplex_reads subread_count index (duplex_read # rest) =
     DuplexReadPtr (duplex_read\<lparr>split_count := subread_count, subread_id := index\<rparr>)
       # tag_duplex_reads subread_count (index + 1) rest"

definition send_family :: "simplex_read list \<Rightarrow> duplex_read list \<Rightarrow> message list" where
  "send_family extracted_subreads extracted_duplex_reads =
     (let base = length extracted_subreads;
          subread_count = base + length extracted_duplex_reads
      in map (\<lambda>subread. SimplexReadPtr (subread\<lparr>split_count := subread_count\<rparr>))
           extracted_subreads
         @ tag_duplex_reads subread_count base extracted_duplex_reads)"

text \<open>
  One iteration of the loop of \<^verbatim>\<open>check_duplex_thread\<close> (lines 65 to 110) that runs with
  a non-empty \<open>m_updated_read_tags\<close> and in which \<^verbatim>\<open>*m_updated_read_tags.begin()\<close> is
  \<open>tag\<close>. Which element \<^verbatim>\<open>begin()\<close> yields depends on the container declared in
  the header, so the tag is an argument; the iteration is only possible for a tag in the
  set, and for any other tag nothing happens. The lookup \<^verbatim>\<open>m_duplex_reads[read_tag]\<close>
  of line 84 creates an empty entry when there is none.
\<close>

definition check_duplex_thread_step :: "tag \<Rightarrow> tagger \<Rightarrow> tagger \<times> message list" where
  "check_duplex_thread_step tag st =
     (if tag \<notin> m_updated_read_tags st then (st, [])
      else
        let st1 = st\<lparr>m_updated_read_tags := m_updated_read_tags st - {tag}\<rparr>
        in case m_full_subread_groups st1 tag of
             None \<Rightarrow> (st1, [])
           | Some (subreads, num_expected_duplex) \<Rightarrow>
               let duplex_reads = at_or_empty (m_duplex_reads st1) tag;
                   st2 = st1\<lparr>m_duplex_reads :=
                               (m_duplex_reads st1)(tag \<mapsto> duplex_reads)\<rparr>
               in if length duplex_reads \<noteq> num_expected_duplex then (st2, [])
                  else
                    (st2\<lparr>m_full_subread_groups :=
                            (m_full_subread_groups st2)(tag := None),
                          m_duplex_reads := (m_duplex_reads st2)(tag := None)\<rparr>,
                     send_family subreads duplex_reads))"

text \<open>
  A run of the node is a sequence of events, each one iteration of the body of one of the two threads:
  a worker takes a message from the input queue, or the reconciliation thread handles a
  tag. The emitted messages accumulate in the order in which they reach the sink. An
  exception ends the run.
\<close>

datatype event = Deliver message | CheckDuplex tag

fun tagger_step :: "event \<Rightarrow> tagger \<Rightarrow> error + tagger \<times> message list" where
  "tagger_step (Deliver message) st = worker_thread_step message st"
| "tagger_step (CheckDuplex tag) st = Inr (check_duplex_thread_step tag st)"

fun tagger_run :: "event list \<Rightarrow> tagger \<Rightarrow> error + tagger \<times> message list" where
  "tagger_run [] st = Inr (st, [])"
| "tagger_run (ev # evs) st =
     (case tagger_step ev st of
        Inl e \<Rightarrow> Inl e
      | Inr (st1, out1) \<Rightarrow>
          (case tagger_run evs st1 of
             Inl e \<Rightarrow> Inl e
           | Inr (st2, out2) \<Rightarrow> Inr (st2, out1 @ out2)))"

section \<open>StereoDuplexEncoderNode: pairing and stereo encoding\<close>

text \<open>
  The model follows \<^verbatim>\<open>src/dorado/read_pipeline/StereoDuplexEncoderNode.cpp\<close>, which
  works on the class \<^verbatim>\<open>Read\<close> (declared outside the modelled sources). Its member
  \<^verbatim>\<open>read_id\<close> is the field \<open>Read_read_id\<close> here, the other members keep their names.
  A tensor is kept by its shape: the node decides on the number of dimensions only, and
  the samples are half-precision floating-point numbers.
\<close>

datatype tensor = Tensor (sizes: "nat list")

definition ndimension :: "tensor \<Rightarrow> nat" where
  "ndimension t = length (sizes t)"

record Read =
  Read_read_id :: string
  seq :: string
  qstring :: string
  moves :: "nat list"
  raw_data :: tensor

text \<open>
  The read made by \<^verbatim>\<open>std::make_shared<dorado::Read>()\<close>: empty strings, no moves and a
  default-constructed tensor. The tensor library is not among the sources; a
  default-constructed tensor reports one dimension of size zero, and the comment of
  line 357 (\<^verbatim>\<open>2 dims for stereo encoding, 1 for simplex\<close>) relies on its number of
  dimensions not being two.
\<close>

definition default_tensor :: tensor where
  "default_tensor = Tensor [0]"

definition default_Read :: Read where
  "default_Read =
     \<lparr>Read_read_id = [], seq = [], qstring = [], moves = [], raw_data = default_tensor\<rparr>"

text \<open>
  What \<^verbatim>\<open>stereo_encode\<close> takes from outside the modelled sources:
  \<^item> \<open>rnd\<close>, the rounding of a rational number to the nearest \<^verbatim>\<open>float\<close>, which every
    \<^verbatim>\<open>float\<close> operation of lines 28 to 32 applies to its exact result;
  \<^item> \<open>reverse_complement\<close>, the function of that name of line 40;
  \<^item> \<open>alignment\<close>, the array \<^verbatim>\<open>result.alignment\<close> that \<^verbatim>\<open>edlibAlign\<close> returns for the
    template sequence and the complement sequence (lines 52 to 55), one operation for each
    alignment column; its length is \<^verbatim>\<open>result.alignmentLength\<close>;
  \<^item> \<open>trimmed_alignment\<close>, lines 36 to 67: the trimming of that alignment by
    \<^verbatim>\<open>get_trimmed_alignment\<close>, giving
    \<open>((start_alignment_position, end_alignment_position), (query_cursor, target_cursor))\<close>
    for the template and the complement sequence.
\<close>

record externals =
  rnd :: "rat \<Rightarrow> rat"
  reverse_complement :: "string \<Rightarrow> string"
  alignment :: "string \<Rightarrow> string \<Rightarrow> nat list"
  trimmed_alignment :: "string \<Rightarrow> string \<Rightarrow> (int \<times> int) \<times> (int \<times> int)"

text \<open>The value of the literal \<^verbatim>\<open>0.05f\<close>: the \<^verbatim>\<open>float\<close> nearest to \<open>1/20\<close>.\<close>

definition float_0_05 :: rat where
  "float_0_05 = 13421773 / 2 ^ 28"

text \<open>
  Lines 28 to 32. The lengths become \<^verbatim>\<open>float\<close>s, \<open>delta\<close> is their rounded difference,
  and the rounded quotient is compared with \<^verbatim>\<open>0.05f\<close>. A division by zero gives
  infinity for a positive dividend, which is greater than \<^verbatim>\<open>0.05f\<close>, and a
  not-a-number for a zero dividend, for which every comparison is false.
\<close>

definition length_ratio_too_large :: "(rat \<Rightarrow> rat) \<Rightarrow> nat \<Rightarrow> nat \<Rightarrow> bool" where
  "length_ratio_too_large r template_size complement_size =
     (let template_len = r (of_nat template_size);
          complement_len = r (of_nat complement_size);
          delta = r (max template_len complement_len - min template_len complement_len)
      in if max template_len complement_len = 0 then 0 < delta
         else float_0_05 < r (delta / max template_len complement_len))"

text \<open>
  The \<^verbatim>\<open>float\<close> of the program is the binary32 format: 24 significant bits, and a
  spacing of neighbouring values that is a power of two and at least \<open>1 / 2 ^ 149\<close>. The
  spacing at \<open>x\<close> is the greatest \<open>2 ^ k / 2 ^ 149\<close> with \<open>k \<le> 253\<close> whose \<open>2 ^ 23\<close>-fold
  is at most \<open>\<bar>x\<bar>\<close>, and the least spacing if there is none. \<open>binary32_round\<close> rounds to
  the nearest multiple of the spacing, a tie to the even multiple, as the processor does
  by default. There is no infinity in this model: it is the rounding of the values below
  \<open>2 ^ 128\<close>, which the lengths of strings and their quotients are.
\<close>

definition round_half_even :: "rat \<Rightarrow> int" where
  "round_half_even q =
     (let f = \<lfloor>q\<rfloor>
      in if q - of_int f < 1 / 2 then f
         else if 1 / 2 < q - of_int f then f + 1
         else if even f then f else f + 1)"

fun ulp_index :: "nat \<Rightarrow> rat \<Rightarrow> nat" where
  "ulp_index 0 x = 0"
| "ulp_index (Suc n) x =
     (if 2 ^ 23 * (2 ^ Suc n / 2 ^ 149) \<le> \<bar>x\<bar> then Suc n else ulp_index n x)"

definition binary32_ulp :: "rat \<Rightarrow> rat" where
  "binary32_ulp x = 2 ^ ulp_index 253 x / 2 ^ 149"

definition binary32_round :: "rat \<Rightarrow> rat" where
  "binary32_round x = of_int (round_half_even (x / binary32_ulp x)) * binary32_ulp x"

definition kMinTrimmedAlignmentLength :: int where
  "kMinTrimmedAlignmentLength = 200"

definition kNumFeatures :: nat where
  "kNumFeatures = 13"

definition kAlignInsertionToTarget :: nat where
  "kAlignInsertionToTarget = 1"

definition kAlignInsertionToQuery :: nat where
  "kAlignInsertionToQuery = 2"

definition stride :: nat where
  "stride = 5"

text \<open>
  How \<^verbatim>\<open>stereo_encode\<close> can end without returning: \<^verbatim>\<open>std::get\<close> on a message that is
  not a read (in the worker), a checked access \<^verbatim>\<open>at\<close> outside a vector, an error raised
  by the tensor library, and an unchecked access outside a buffer, after which the
  behaviour of the program is undefined and the model follows it no further.
\<close>

datatype stereo_error =
    bad_variant_access
  | out_of_range
  | tensor_error
  | access_outside_buffer

text \<open>\<^verbatim>\<open>raw_data.size(0)\<close>; the library raises an error for a tensor without dimensions.\<close>

definition size0 :: "tensor \<Rightarrow> nat option" where
  "size0 t = (case sizes t of [] \<Rightarrow> None | n # _ \<Rightarrow> Some n)"

text \<open>
  Lines 112 to 123 (and 131 to 142): every move is followed by \<open>stride - 1\<close> zeros, and
  the vector is cut down to the number of raw samples if it is longer.
\<close>

definition expand_moves :: "nat list \<Rightarrow> nat \<Rightarrow> nat list" where
  "expand_moves read_moves raw_size =
     take raw_size (concat (map (\<lambda>move. move # replicate (stride - 1) 0) read_moves))"

text \<open>Lines 143 to 145: a one is appended, the vector reversed and its last entry removed.\<close>

definition reverse_moves :: "nat list \<Rightarrow> nat list" where
  "reverse_moves moves_expanded = butlast (rev (moves_expanded @ [1]))"

text \<open>
  The \<^verbatim>\<open>while\<close> statements of lines 126 to 129 and 151 to 154: as long as fewer moves
  are seen than wanted, the signal cursor goes on by one and the move at the new cursor is
  added. \<open>rest\<close> holds the entries after the cursor; reading past the last one leaves the
  vector.
\<close>

fun seek_moves :: "int \<Rightarrow> int \<Rightarrow> nat \<Rightarrow> nat list \<Rightarrow> nat option" where
  "seek_moves moves_seen wanted signal_cursor [] =
     (if moves_seen < wanted then None else Some signal_cursor)"
| "seek_moves moves_seen wanted signal_cursor (move # rest) =
     (if moves_seen < wanted
      then seek_moves (moves_seen + int move) wanted (signal_cursor + 1) rest
      else Some signal_cursor)"

text \<open>
  Lines 125 to 129: the first count is the first entry of the expanded template moves.
  Lines 150 to 154: for the complement the first count is the first entry of the read's
  own \<open>moves\<close>, and the loop reads the reversed expanded moves from index one on.
\<close>

definition template_signal_start :: "nat list \<Rightarrow> int \<Rightarrow> nat option" where
  "template_signal_start template_moves_expanded target_cursor =
     (case template_moves_expanded of
        [] \<Rightarrow> None
      | move # rest \<Rightarrow> seek_moves (int move) (target_cursor + 1) 0 rest)"

definition complement_signal_start :: "nat list \<Rightarrow> nat list \<Rightarrow> int \<Rightarrow> nat option" where
  "complement_signal_start complement_moves complement_moves_expanded query_cursor =
     (case complement_moves of
        [] \<Rightarrow> None
      | move # _ \<Rightarrow>
          seek_moves (int move) (query_cursor + 1) 0 (drop 1 complement_moves_expanded))"

text \<open>
  Lines 191 to 214 (and 219 to 241), for one strand: the sample at the signal cursor is
  copied, the cursor goes on by one, \<^verbatim>\<open>memchr\<close> looks for the next move from there and
  the samples before it are copied. The result is the new cursor and the length of the
  segment. \<^verbatim>\<open>memchr\<close> is given the length of the whole vector, so without a further move
  in the vector it reads on behind it; and no sample may lie behind the raw data.
\<close>

definition advance_signal :: "nat \<Rightarrow> nat list \<Rightarrow> nat \<Rightarrow> (nat \<times> nat) option" where
  "advance_signal raw_size moves_expanded signal_cursor =
     (if raw_size \<le> signal_cursor then None
      else
        let rest = drop (signal_cursor + 1) moves_expanded;
            sample_count = length (takeWhile (\<lambda>move. move \<noteq> 1) rest)
        in if length rest \<le> sample_count then None
           else if raw_size < signal_cursor + 1 + sample_count then None
           else Some (signal_cursor + 1 + sample_count, 1 + sample_count))"

text \<open>
  What the walk reads: the alignment, the expanded moves and the number of raw samples
  of either strand, and the sizes of the four vectors read with \<^verbatim>\<open>at\<close>. What it changes:
  the five cursors.
\<close>

record walk_input =
  alignment_ops :: "nat list"
  template_moves_expanded :: "nat list"
  complement_moves_expanded :: "nat list"
  template_raw_size :: nat
  complement_raw_size :: nat
  template_sequence_size :: nat
  template_q_scores_size :: nat
  complement_sequence_size :: nat
  complement_q_scores_size :: nat

record walk_state =
  template_signal_cursor :: nat
  complement_signal_cursor :: nat
  target_cursor :: int
  query_cursor :: int
  stereo_global_cursor :: nat

text \<open>\<^verbatim>\<open>v.at(cursor)\<close> for an \<^verbatim>\<open>int\<close> cursor and a vector of the given size does not throw.\<close>

definition at_in_range :: "int \<Rightarrow> nat \<Rightarrow> bool" where
  "at_in_range cursor size_of_vector \<longleftrightarrow> 0 \<le> cursor \<and> nat cursor < size_of_vector"

text \<open>
  One pass of the loop of lines 182 to 287, for alignment position \<open>i\<close>. The writes to
  the feature tensor need no check of their own: the columns written so far are never
  more than the samples read from both strands, and the tensor has room for all of them.
\<close>

definition encode_column :: "walk_input \<Rightarrow> int \<Rightarrow> walk_state \<Rightarrow> stereo_error + walk_state" where
  "encode_column inp i st =
     (if i < 0 \<or> int (length (alignment_ops inp)) \<le> i then Inl access_outside_buffer
      else
        let op = alignment_ops inp ! nat i;
            template_part =
              (if op \<noteq> kAlignInsertionToQuery
               then advance_signal (template_raw_size inp) (template_moves_expanded inp)
                      (template_signal_cursor st)
               else Some (template_signal_cursor st, 0));
            complement_part =
              (if op \<noteq> kAlignInsertionToTarget
               then advance_signal (complement_raw_size inp) (complement_moves_expanded inp)
                      (complement_signal_cursor st)
               else Some (complement_signal_cursor st, 0))
        in case template_part of
             None \<Rightarrow> Inl access_outside_buffer
           | Some (template_cursor, template_segment_length) \<Rightarrow>
               (case complement_part of
                  None \<Rightarrow> Inl access_outside_buffer
                | Some (complement_cursor, complement_segment_length) \<Rightarrow>
                    let total_segment_length =
                          max template_segment_length complement_segment_length
                    in if op \<noteq> kAlignInsertionToQuery \<and>
                          \<not> (at_in_range (target_cursor st) (template_sequence_size inp) \<and>
                             at_in_range (target_cursor st) (template_q_scores_size inp))
                       then Inl out_of_range
                       else if op \<noteq> kAlignInsertionToTarget \<and>
                          \<not> (at_in_range (query_cursor st) (complement_sequence_size inp) \<and>
                             at_in_range (query_cursor st) (complement_q_scores_size inp))
                       then Inl out_of_range
                       else
                         Inr \<lparr>template_signal_cursor = template_cursor,
                              complement_signal_cursor = complement_cursor,
                              target_cursor =
                                (if op \<noteq> kAlignInsertionToQuery
                                 then target_cursor st + 1 else target_cursor st),
                              query_cursor =
                                (if op \<noteq> kAlignInsertionToTarget
                                 then query_cursor st + 1 else query_cursor st),
                              stereo_global_cursor =
                                stereo_global_cursor st + total_segment_length\<rparr>))"

text \<open>The loop itself: \<open>n\<close> passes from position \<open>i\<close> on.\<close>

fun encode_columns :: "walk_input \<Rightarrow> nat \<Rightarrow> int \<Rightarrow> walk_state \<Rightarrow> stereo_error + walk_state" where
  "encode_columns inp 0 i st = Inr st"
| "encode_columns inp (Suc n) i st =
     (case encode_column inp i st of
        Inl e \<Rightarrow> Inl e
      | Inr st1 \<Rightarrow> encode_columns inp n (i + 1) st1)"

text \<open>
  Lines 81 to 290: the number of columns of the encoded tensor after the slice of line
  289, or the way the walk fails. The minimum of the raw data (line 156) is an error of
  the tensor library for a tensor without elements.
\<close>

definition encode_signal ::
  "externals \<Rightarrow> Read \<Rightarrow> Read \<Rightarrow> (int \<times> int) \<times> (int \<times> int) \<Rightarrow> stereo_error + nat" where
  "encode_signal ext template_read complement_read trimmed =
     (case (size0 (raw_data template_read), size0 (raw_data complement_read)) of
        (Some template_size, Some complement_size) \<Rightarrow>
          let max_size = template_size + complement_size;
              inp =
                \<lparr>alignment_ops = alignment ext (seq template_read) (seq complement_read),
                 template_moves_expanded = expand_moves (moves template_read) template_size,
                 complement_moves_expanded =
                   reverse_moves (expand_moves (moves complement_read) complement_size),
                 template_raw_size = template_size,
                 complement_raw_size = complement_size,
                 template_sequence_size = length (seq template_read),
                 template_q_scores_size = length (qstring template_read),
                 complement_sequence_size =
                   length (reverse_complement ext (seq complement_read)),
                 complement_q_scores_size = length (qstring complement_read)\<rparr>;
              start_alignment_position = fst (fst trimmed);
              end_alignment_position = snd (fst trimmed);
              query_cursor0 = fst (snd trimmed);
              target_cursor0 = snd (snd trimmed)
          in (case template_signal_start (template_moves_expanded inp) target_cursor0 of
                None \<Rightarrow> Inl access_outside_buffer
              | Some template_cursor \<Rightarrow>
                  (case complement_signal_start (moves complement_read)
                          (complement_moves_expanded inp) query_cursor0 of
                     None \<Rightarrow> Inl access_outside_buffer
                   | Some complement_cursor \<Rightarrow>
                       if template_size = 0 \<or> complement_size = 0 then Inl tensor_error
                       else
                         (case encode_columns inp
                                 (nat (end_alignment_position - start_alignment_position))
                                 start_alignment_position
                                 \<lparr>template_signal_cursor = template_cursor,
                                  complement_signal_cursor = complement_cursor,
                                  target_cursor = target_cursor0,
                                  query_cursor = query_cursor0,
                                  stereo_global_cursor = 0\<rparr> of
                            Inl e \<Rightarrow> Inl e
                          | Inr st \<Rightarrow> Inr (min (stereo_global_cursor st) max_size))))
      | _ \<Rightarrow> Inl tensor_error)"

text \<open>
  \<^verbatim>\<open>stereo_internal::stereo_encode\<close>: the read returned to the worker, or the failure of
  the walk. The two early returns give back the default read.
\<close>

definition stereo_encode :: "externals \<Rightarrow> Read \<Rightarrow> Read \<Rightarrow> stereo_error + Read" where
  "stereo_encode ext template_read complement_read =
     (let read = default_Read
      in if length_ratio_too_large (rnd ext)
              (length (seq template_read)) (length (seq complement_read))
         then Inr read
         else
           let trimmed = trimmed_alignment ext (seq template_read) (seq complement_read);
               start_alignment_position = fst (fst trimmed);
               end_alignment_position = snd (fst trimmed);
               consensus_possible =
                 (start_alignment_position < end_alignment_position \<and>
                  end_alignment_position - start_alignment_position
                    > kMinTrimmedAlignmentLength)
           in if \<not> consensus_possible then Inr read
              else
                (case encode_signal ext template_read complement_read trimmed of
                   Inl e \<Rightarrow> Inl e
                 | Inr columns \<Rightarrow>
                     Inr (read\<lparr>Read_read_id :=
                                 Read_read_id template_read @ '';''
                                   @ Read_read_id complement_read,
                               raw_data := Tensor [kNumFeatures, columns]\<rparr>)))"

text \<open>
  The messages of this node: a read, or any other alternative of the variant, for which
  \<^verbatim>\<open>std::get\<close> throws.
\<close>

datatype stereo_message = ReadMessage Read | NonReadMessage nat

text \<open>
  The members of the node, and of its sink \<open>m_sink\<close> the number of calls of
  \<^verbatim>\<open>terminate()\<close> it has received.
\<close>

record stereo_node =
  m_template_complement_map :: "string \<rightharpoonup> string"
  m_complement_template_map :: "string \<rightharpoonup> string"
  read_cache :: "string \<rightharpoonup> Read"
  m_num_worker_threads :: int
  m_sink_terminate_calls :: nat

text \<open>
  The constructor (lines 371 to 388), for the entries of the \<^verbatim>\<open>std::map\<close> argument in
  the order of iteration and the value of \<^verbatim>\<open>std::thread::hardware_concurrency()\<close>.
\<close>

definition StereoDuplexEncoderNode ::
  "(string \<times> string) list \<Rightarrow> nat \<Rightarrow> stereo_node" where
  "StereoDuplexEncoderNode template_complement_map hardware_concurrency =
     \<lparr>m_template_complement_map = map_of template_complement_map,
      m_complement_template_map =
        foldl (\<lambda>m key. m(snd key \<mapsto> fst key)) Map.empty template_complement_map,
      read_cache = Map.empty,
      m_num_worker_threads = int hardware_concurrency,
      m_sink_terminate_calls = 0\<rparr>"

text \<open>
  One iteration of the loop of \<^verbatim>\<open>worker_thread\<close> (lines 305 to 363) on a message popped
  from the work queue: the new state and the reads pushed to the sink, or the exception.
\<close>

definition stereo_worker_step ::
  "externals \<Rightarrow> stereo_message \<Rightarrow> stereo_node \<Rightarrow> stereo_error + stereo_node \<times> Read list" where
  "stereo_worker_step ext message st =
     (case message of
        NonReadMessage _ \<Rightarrow> Inl bad_variant_access
      | ReadMessage read \<Rightarrow>
          let lookup =
                (case m_template_complement_map st (Read_read_id read) of
                   Some partner_id \<Rightarrow> (True, Some partner_id)
                 | None \<Rightarrow>
                     (case m_complement_template_map st (Read_read_id read) of
                        Some partner_id \<Rightarrow> (False, Some partner_id)
                      | None \<Rightarrow> (False, None)));
              read_is_template = fst lookup
          in (case snd lookup of
               None \<Rightarrow> Inr (st, [])
             | Some partner_id \<Rightarrow>
                 (case read_cache st partner_id of
                    None \<Rightarrow>
                      Inr (st\<lparr>read_cache := (read_cache st)(Read_read_id read \<mapsto> read)\<rparr>, [])
                  | Some partner_read \<Rightarrow>
                      let st1 = st\<lparr>read_cache := (read_cache st)(partner_id := None)\<rparr>;
                          template_read = (if read_is_template then read else partner_read);
                          complement_read = (if read_is_template then partner_read else read)
                      in (case stereo_encode ext template_read complement_read of
                            Inl e \<Rightarrow> Inl e
                          | Inr stereo_encoded_read \<Rightarrow>
                              if ndimension (raw_data stereo_encoded_read) = 2
                              then Inr (st1, [stereo_encoded_read])
                              else Inr (st1, [])))))"

fun stereo_run ::
  "externals \<Rightarrow> stereo_message list \<Rightarrow> stereo_node \<Rightarrow> stereo_error + stereo_node \<times> Read list" where
  "stereo_run ext [] st = Inr (st, [])"
| "stereo_run ext (message # rest) st =
     (case stereo_worker_step ext message st of
        Inl e \<Rightarrow> Inl e
      | Inr (st1, out1) \<Rightarrow>
          (case stereo_run ext rest st1 of
             Inl e \<Rightarrow> Inl e
           | Inr (st2, out2) \<Rightarrow> Inr (st2, out1 @ out2)))"

text \<open>
  The end of \<^verbatim>\<open>worker_thread\<close> (lines 365 to 368), reached by a worker when the work
  queue is terminated and empty: the atomic decrement, and the call of
  \<^verbatim>\<open>m_sink.terminate()\<close> by the worker that reads zero.
\<close>

definition worker_thread_exit :: "stereo_node \<Rightarrow> stereo_node" where
  "worker_thread_exit st =
     (let num_worker_threads = m_num_worker_threads st - 1;
          st1 = st\<lparr>m_num_worker_threads := num_worker_threads\<rparr>
      in if num_worker_threads = 0
         then st1\<lparr>m_sink_terminate_calls := m_sink_terminate_calls st1 + 1\<rparr>
         else st1)"

text \<open>
  The destructor (lines 390 to 397): it terminates the node's own queue and joins the
  workers, so it goes on once each of them has left through \<open>worker_thread_exit\<close>;
  then it calls \<^verbatim>\<open>m_sink.terminate()\<close>.
\<close>

definition destructor :: "stereo_node \<Rightarrow> stereo_node" where
  "destructor st = st\<lparr>m_sink_terminate_calls := m_sink_terminate_calls st + 1\<rparr>"

text \<open>
  The life of a node with \<open>hardware_concurrency\<close> workers, as far as the sink's
  termination goes: construction, the exit of every worker, destruction.
\<close>

definition node_lifetime :: "(string \<times> string) list \<Rightarrow> nat \<Rightarrow> stereo_node" where
  "node_lifetime template_complement_map hardware_concurrency =
     destructor
       ((worker_thread_exit ^^ hardware_concurrency)
          (StereoDuplexEncoderNode template_complement_map hardware_concurrency))"

section \<open>Auxiliary notions and example data\<close>

text \<open>The tag under which the node files a message, and the tag an event works on.\<close>

fun message_tag :: "message \<Rightarrow> tag option" where
  "message_tag (SimplexReadPtr s) = Some (read_tag s)"
| "message_tag (DuplexReadPtr d) = Some (read_tag d)"
| "message_tag (OtherMessage _) = None"

fun event_tag :: "event \<Rightarrow> tag option" where
  "event_tag (Deliver m) = message_tag m"
| "event_tag (CheckDuplex t) = Some t"

text \<open>The event hands the worker a read for tag \<open>t\<close> that takes the simplex branch.\<close>

fun delivers_simplex_for :: "tag \<Rightarrow> event \<Rightarrow> bool" where
  "delivers_simplex_for t (Deliver (SimplexReadPtr s)) = (\<not> is_duplex s \<and> read_tag s = t)"
| "delivers_simplex_for t (Deliver (DuplexReadPtr d)) = (\<not> is_duplex d \<and> read_tag d = t)"
| "delivers_simplex_for t (Deliver (OtherMessage _)) = False"
| "delivers_simplex_for t (CheckDuplex _) = False"

text \<open>Every buffered read is filed under its own tag.\<close>

definition keyed :: "tagger \<Rightarrow> bool" where
  "keyed st \<longleftrightarrow>
     (\<forall>t rs. m_subread_groups st t = Some rs \<longrightarrow> (\<forall>r\<in>set rs. read_tag r = t)) \<and>
     (\<forall>t rs E. m_full_subread_groups st t = Some (rs, E) \<longrightarrow> (\<forall>r\<in>set rs. read_tag r = t)) \<and>
     (\<forall>t ds. m_duplex_reads st t = Some ds \<longrightarrow> (\<forall>d\<in>set ds. read_tag d = t))"

text \<open>
  Tag \<open>t\<close> has the waiting group \<open>rs\<close> with expected count \<open>E\<close>, and its duplex reads
  start with \<open>ds\<close>, which are already more than expected.
\<close>

definition surplus :: "tag \<Rightarrow> simplex_read list \<Rightarrow> nat \<Rightarrow> duplex_read list \<Rightarrow> tagger \<Rightarrow> bool" where
  "surplus t rs E ds st \<longleftrightarrow>
     m_full_subread_groups st t = Some (rs, E) \<and>
     (\<exists>more. m_duplex_reads st t = Some (ds @ more)) \<and> E < length ds"

text \<open>
  The identity of a read is its \<open>read_id\<close>, which the node never writes. The ids of a
  list of messages, the ids a run delivers, and the ids the node holds for a tag: in the
  group being collected, in the waiting group and among the duplex reads.
\<close>

fun message_id :: "message \<Rightarrow> string list" where
  "message_id (SimplexReadPtr s) = [read_id s]"
| "message_id (DuplexReadPtr d) = [read_id d]"
| "message_id (OtherMessage _) = []"

definition message_ids :: "message list \<Rightarrow> string list" where
  "message_ids ms = concat (map message_id ms)"

fun event_ids :: "event \<Rightarrow> string list" where
  "event_ids (Deliver m) = message_id m"
| "event_ids (CheckDuplex t) = []"

definition delivered_ids :: "event list \<Rightarrow> string list" where
  "delivered_ids evs = concat (map event_ids evs)"

definition tag_ids :: "tagger \<Rightarrow> tag \<Rightarrow> string list" where
  "tag_ids st t =
     map read_id (at_or_empty (m_subread_groups st) t) @
     map read_id (case m_full_subread_groups st t of None \<Rightarrow> [] | Some (rs, E) \<Rightarrow> rs) @
     map read_id (at_or_empty (m_duplex_reads st) t)"

text \<open>
  No id occurs twice: not among the ids \<open>acc\<close> emitted so far, not in what the node holds
  for one tag or for two tags, and not both emitted and held.
\<close>

definition ids_apart :: "tagger \<Rightarrow> string list \<Rightarrow> bool" where
  "ids_apart st acc \<longleftrightarrow>
     distinct acc \<and>
     (\<forall>t. distinct (tag_ids st t) \<and> set (tag_ids st t) \<inter> set acc = {}) \<and>
     (\<forall>t t'. t \<noteq> t' \<longrightarrow> set (tag_ids st t) \<inter> set (tag_ids st t') = {})"

text \<open>Every waiting group expects at least one duplex read.\<close>

definition waiting_expects_duplex :: "tagger \<Rightarrow> bool" where
  "waiting_expects_duplex st \<longleftrightarrow>
     (\<forall>t rs E. m_full_subread_groups st t = Some (rs, E) \<longrightarrow> 0 < E)"

text \<open>
  Every tag whose family is complete, the waiting group there and the duplex reads as
  many as it expects, is among the tags to reconcile.
\<close>

definition complete_marked :: "tagger \<Rightarrow> bool" where
  "complete_marked st \<longleftrightarrow>
     (\<forall>t rs E. m_full_subread_groups st t = Some (rs, E) \<and>
               length (at_or_empty (m_duplex_reads st) t) = E \<longrightarrow>
               t \<in> m_updated_read_tags st)"

text \<open>The event hands the worker a read that carries tag \<open>t\<close>.\<close>

fun delivers_read_for :: "tag \<Rightarrow> event \<Rightarrow> bool" where
  "delivers_read_for t (Deliver m) = (message_tag m = Some t)"
| "delivers_read_for t (CheckDuplex _) = False"

text \<open>The tag has no entry among the waiting groups and none among the duplex reads.\<close>

definition absent_from_both :: "tag \<Rightarrow> tagger \<Rightarrow> bool" where
  "absent_from_both t st \<longleftrightarrow>
     t \<notin> dom (m_full_subread_groups st) \<and> t \<notin> dom (m_duplex_reads st)"

text \<open>Example reads: a simplex fragment and a duplex read.\<close>

definition fragment :: "string \<Rightarrow> tag \<Rightarrow> nat \<Rightarrow> nat \<Rightarrow> nat \<Rightarrow> simplex_read" where
  "fragment i t n k c =
     \<lparr>read_id = i, read_tag = t, split_count = n, subread_id = k, is_duplex = False,
      num_duplex_candidate_pairs = c\<rparr>"

definition duplex :: "string \<Rightarrow> tag \<Rightarrow> duplex_read" where
  "duplex i t =
     \<lparr>read_id = i, read_tag = t, split_count = 1, subread_id = 0, is_duplex = True\<rparr>"

text \<open>
  Example states: the node of the specification's duplex example after its three
  deliveries, and a node that holds two duplex reads for a group expecting one.
\<close>

definition waiting_for_duplex :: tagger where
  "waiting_for_duplex =
     \<lparr>m_subread_groups = Map.empty,
      m_full_subread_groups = [9 \<mapsto> ([fragment ''A'' 9 2 0 1, fragment ''B'' 9 2 1 0], 1)],
      m_duplex_reads = [9 \<mapsto> [duplex ''A;B'' 9]],
      m_updated_read_tags = {9}\<rparr>"

definition over_supplied :: tagger where
  "over_supplied =
     \<lparr>m_subread_groups = Map.empty,
      m_full_subread_groups = [1 \<mapsto> ([fragment ''A'' 1 1 0 1], 1)],
      m_duplex_reads = [1 \<mapsto> [duplex ''d1'' 1, duplex ''d2'' 1]],
      m_updated_read_tags = {}\<rparr>"

text \<open>The family of the duplex example as it is emitted.\<close>

definition family_of_9 :: "message list" where
  "family_of_9 =
     [SimplexReadPtr ((fragment ''A'' 9 2 0 1)\<lparr>split_count := 3\<rparr>),
      SimplexReadPtr ((fragment ''B'' 9 2 1 0)\<lparr>split_count := 3\<rparr>),
      DuplexReadPtr ((duplex ''A;B'' 9)\<lparr>split_count := 3, subread_id := 2\<rparr>)]"

text \<open>
  The pair that the worker of the encoder hands to \<open>stereo_encode\<close> for an incoming read:
  the id of the partner found in the cache, the template and the complement. \<open>None\<close> when
  the read has no partner in the pair table or its partner is not cached.
\<close>

definition matched_pair :: "stereo_node \<Rightarrow> Read \<Rightarrow> (string \<times> Read \<times> Read) option" where
  "matched_pair st read =
     (case m_template_complement_map st (Read_read_id read) of
        Some partner_id \<Rightarrow>
          (case read_cache st partner_id of
             None \<Rightarrow> None
           | Some partner_read \<Rightarrow> Some (partner_id, read, partner_read))
      | None \<Rightarrow>
          (case m_complement_template_map st (Read_read_id read) of
             None \<Rightarrow> None
           | Some partner_id \<Rightarrow>
               (case read_cache st partner_id of
                  None \<Rightarrow> None
                | Some partner_read \<Rightarrow> Some (partner_id, partner_read, read))))"

text \<open>
  The ratio that the specification compares with 0.05: the difference of the two sequence
  lengths over the greater of them, as an exact rational number.
\<close>

definition length_difference_ratio :: "nat \<Rightarrow> nat \<Rightarrow> rat" where
  "length_difference_ratio template_size complement_size =
     \<bar>of_nat template_size - of_nat complement_size\<bar> /
       of_nat (max template_size complement_size)"

text \<open>
  What the length test needs of the rounding: it leaves the integers below \<open>2 ^ 24\<close>,
  which are \<^verbatim>\<open>float\<close>s, as they are, and its result is never further from its argument
  than the \<^verbatim>\<open>float\<close> next above \<^verbatim>\<open>0.05f\<close> is. Every rounding to a nearest \<^verbatim>\<open>float\<close>
  has both properties, whatever it does with a tie.
\<close>

definition rounds_to_nearest_float :: "(rat \<Rightarrow> rat) \<Rightarrow> bool" where
  "rounds_to_nearest_float r \<longleftrightarrow>
     (\<forall>n < 2 ^ 24. r (of_nat n) = of_nat n) \<and>
     (\<forall>x. \<bar>r x - x\<bar> \<le> \<bar>13421774 / 2 ^ 28 - x\<bar>)"

text \<open>
  Example data for the encoder. The externals: exact arithmetic, the usual reverse
  complement, an alignment that matches every base of the template, and a trimmed span
  from column 0 to a given column with both cursors at 0; and the same with the rounding
  of binary32. The reads: 300 bases with a sequence that is its own reverse complement,
  one move for each base and five raw samples for each move; and the same read with a
  sequence of a given length of one base. A node that pairs template A with complement B,
  and the merged record of the pair for a span of 250 columns.
\<close>

definition kAlignMatch :: nat where
  "kAlignMatch = 0"

fun complement_base :: "char \<Rightarrow> char" where
  "complement_base c =
     (if c = CHR ''A'' then CHR ''T'' else if c = CHR ''T'' then CHR ''A''
      else if c = CHR ''C'' then CHR ''G'' else if c = CHR ''G'' then CHR ''C'' else c)"

definition example_externals :: "int \<Rightarrow> externals" where
  "example_externals columns =
     \<lparr>rnd = (\<lambda>x. x),
      reverse_complement = (\<lambda>sequence. rev (map complement_base sequence)),
      alignment = (\<lambda>template_seq complement_seq. replicate (length template_seq) kAlignMatch),
      trimmed_alignment = (\<lambda>template_seq complement_seq. ((0, columns), (0, 0)))\<rparr>"

definition binary32_externals :: "int \<Rightarrow> externals" where
  "binary32_externals columns = (example_externals columns)\<lparr>rnd := binary32_round\<rparr>"

definition example_read :: "string \<Rightarrow> Read" where
  "example_read i =
     \<lparr>Read_read_id = i, seq = concat (replicate 150 ''AT''),
      qstring = replicate 300 (CHR ''5''), moves = replicate 300 1,
      raw_data = Tensor [1500]\<rparr>"

definition read_of_length :: "string \<Rightarrow> char \<Rightarrow> nat \<Rightarrow> Read" where
  "read_of_length i base n =
     (example_read i)\<lparr>seq := replicate n base, qstring := replicate n (CHR ''5'')\<rparr>"

definition example_node :: stereo_node where
  "example_node = StereoDuplexEncoderNode [(''A'', ''B'')] 4"

definition merged_AB :: Read where
  "merged_AB = default_Read\<lparr>Read_read_id := ''A;B'', raw_data := Tensor [13, 1250]\<rparr>"

section \<open>Properties of the reassembly barrier\<close>

lemma num_expected_duplex_of_sum:
  "num_expected_duplex_of xs = sum_list (map num_duplex_candidate_pairs xs)"
proof -
  have "foldl (\<lambda>running_total subread. num_duplex_candidate_pairs subread + running_total) a xs
        = a + sum_list (map num_duplex_candidate_pairs xs)" for a
    by (induction xs arbitrary: a) simp_all
  then show ?thesis by (simp add: num_expected_duplex_of_def)
qed

lemma tagger_run_append:
  "tagger_run evs st = Inr (st1, out1) \<Longrightarrow>
   tagger_run (evs @ evs') st =
     (case tagger_run evs' st1 of
        Inl e \<Rightarrow> Inl e
      | Inr (st2, out2) \<Rightarrow> Inr (st2, out1 @ out2))"
  by (induction evs arbitrary: st st1 out1) (auto split: sum.splits prod.splits)

lemma tagger_run_snoc:
  "tagger_run evs st = Inr (st1, out1) \<Longrightarrow> tagger_step ev st1 = Inr (st2, out2) \<Longrightarrow>
   tagger_run (evs @ [ev]) st = Inr (st2, out1 @ out2)"
  by (simp add: tagger_run_append)

text \<open>
  Claim C4. A simplex fragment arrives whose \<open>split_count\<close> is \<open>n\<close>, the group of its
  tag holds \<open>n - 1\<close> earlier fragments, and the pair counts of the \<open>n\<close> fragments sum to
  zero. Then this very iteration of the worker sends exactly the \<open>n\<close> fragments to the
  sink, in the order of arrival and unchanged (so \<open>split_count\<close> is as it came), drops the
  group, and neither files a waiting group nor asks for a reconciliation.
\<close>

theorem simplex_group_without_duplex_emitted_at_once:
  assumes "\<not> is_duplex read"
    and "split_count read = n"
    and "at_or_empty (m_subread_groups st) (read_tag read) = earlier"
    and "length earlier + 1 = n"
    and "sum_list (map num_duplex_candidate_pairs (earlier @ [read])) = 0"
  shows "worker_thread_step (SimplexReadPtr read) st =
           Inr (st\<lparr>m_subread_groups := (m_subread_groups st)(read_tag read := None)\<rparr>,
                map SimplexReadPtr (earlier @ [read]))"
  using assms
  by (simp add: worker_thread_step_def Let_def num_expected_duplex_of_sum
        read_common.truncate_def)

text \<open>
  The example of the specification: three fragments of tag 7 with \<open>split_count = 3\<close> and
  no duplex candidates; the third delivery emits the three of them.
\<close>

theorem simplex_group_without_duplex_emitted_at_once_witness:
  "tagger_run
     [Deliver (SimplexReadPtr (fragment ''a'' 7 3 0 0)),
      Deliver (SimplexReadPtr (fragment ''b'' 7 3 1 0)),
      Deliver (SimplexReadPtr (fragment ''c'' 7 3 2 0))] tagger_init =
   Inr (tagger_init,
        [SimplexReadPtr (fragment ''a'' 7 3 0 0), SimplexReadPtr (fragment ''b'' 7 3 1 0),
         SimplexReadPtr (fragment ''c'' 7 3 2 0)])"
proof -
  let ?st = "tagger_init\<lparr>m_subread_groups :=
                [7 \<mapsto> [fragment ''a'' 7 3 0 0, fragment ''b'' 7 3 1 0]]\<rparr>"
  have first_two:
    "tagger_run [Deliver (SimplexReadPtr (fragment ''a'' 7 3 0 0)),
                 Deliver (SimplexReadPtr (fragment ''b'' 7 3 1 0))] tagger_init = Inr (?st, [])"
    by (simp add: worker_thread_step_def fragment_def tagger_init_def at_or_empty_def
          read_common.truncate_def)
  have third:
    "tagger_step (Deliver (SimplexReadPtr (fragment ''c'' 7 3 2 0))) ?st =
       Inr (tagger_init,
            [SimplexReadPtr (fragment ''a'' 7 3 0 0), SimplexReadPtr (fragment ''b'' 7 3 1 0),
             SimplexReadPtr (fragment ''c'' 7 3 2 0)])"
    using simplex_group_without_duplex_emitted_at_once
            [of "fragment ''c'' 7 3 2 0" 3 ?st
                "[fragment ''a'' 7 3 0 0, fragment ''b'' 7 3 1 0]"]
    by (simp add: fragment_def tagger_init_def at_or_empty_def)
  show ?thesis
    using tagger_run_snoc [OF first_two third] by simp
qed

lemma tag_duplex_reads_length: "length (tag_duplex_reads c i ds) = length ds"
  by (induction ds arbitrary: i) simp_all

lemma tag_duplex_reads_nth:
  "k < length ds \<Longrightarrow>
   tag_duplex_reads c i ds ! k = DuplexReadPtr ((ds ! k)\<lparr>split_count := c, subread_id := i + k\<rparr>)"
  by (induction ds arbitrary: i k) (auto simp: nth_Cons split: nat.splits)

lemma keyed_init: "keyed tagger_init"
  by (simp add: keyed_def tagger_init_def)

lemma send_family_tags:
  "m \<in> set (send_family rs ds) \<Longrightarrow>
   (\<exists>r\<in>set rs. message_tag m = Some (read_tag r)) \<or> (\<exists>d\<in>set ds. message_tag m = Some (read_tag d))"
proof -
  have "m \<in> set (tag_duplex_reads c i ds) \<Longrightarrow> \<exists>d\<in>set ds. message_tag m = Some (read_tag d)" for c i
    by (induction ds arbitrary: i) auto
  then show "m \<in> set (send_family rs ds) \<Longrightarrow> ?thesis"
    by (auto simp: send_family_def Let_def)
qed

lemma worker_keyed:
  assumes "keyed st" "worker_thread_step m st = Inr (st', out)"
  shows "keyed st' \<and> (\<forall>x\<in>set out. message_tag x = message_tag m)"
  using assms
  by (cases m)
     (auto simp: worker_thread_step_def Let_def keyed_def at_or_empty_def read_common.truncate_def
           split: if_splits option.splits)

lemma check_keyed:
  assumes "keyed st" "check_duplex_thread_step t st = (st', out)"
  shows "keyed st' \<and> (\<forall>x\<in>set out. message_tag x = Some t)"
  using assms
  by (auto simp: check_duplex_thread_step_def Let_def keyed_def at_or_empty_def
           split: if_splits option.splits dest!: send_family_tags)

lemma step_keyed:
  assumes "keyed st" "tagger_step ev st = Inr (st', out)"
  shows "keyed st' \<and> (\<forall>x\<in>set out. message_tag x = event_tag ev)"
  using assms by (cases ev) (auto dest: worker_keyed check_keyed)

lemma run_keyed:
  "keyed st \<Longrightarrow> tagger_run evs st = Inr (st', out) \<Longrightarrow> keyed st'"
  by (induction evs arbitrary: st st' out) (auto split: sum.splits prod.splits dest: step_keyed)

lemma step_surplus:
  assumes "surplus t rs E ds st" "\<not> delivers_simplex_for t ev" "tagger_step ev st = Inr (st', out)"
  shows "surplus t rs E ds st' \<and> (event_tag ev = Some t \<longrightarrow> out = [])"
proof (cases ev)
  case (Deliver m)
  then show ?thesis using assms
    by (cases m)
       (auto simp: worker_thread_step_def Let_def surplus_def at_or_empty_def read_common.truncate_def
             split: if_splits option.splits)
next
  case (CheckDuplex u)
  then show ?thesis using assms
    by (auto simp: check_duplex_thread_step_def Let_def surplus_def at_or_empty_def
             split: if_splits option.splits)
qed

lemma run_surplus:
  assumes "keyed st" "surplus t rs E ds st" "\<forall>ev\<in>set evs. \<not> delivers_simplex_for t ev"
    "tagger_run evs st = Inr (st', out)"
  shows "surplus t rs E ds st' \<and> (\<forall>x\<in>set out. message_tag x \<noteq> Some t)"
  using assms
proof (induction evs arbitrary: st st' out)
  case Nil
  then show ?case by simp
next
  case (Cons ev evs)
  from Cons.prems(4) obtain st1 out1 st2 out2 where
    s1: "tagger_step ev st = Inr (st1, out1)" and
    s2: "tagger_run evs st1 = Inr (st2, out2)" and
    eq: "st' = st2" "out = out1 @ out2"
    by (auto split: sum.splits prod.splits)
  have k1: "keyed st1" and o1: "\<forall>x\<in>set out1. message_tag x = event_tag ev"
    using step_keyed [OF Cons.prems(1) s1] by auto
  have p1: "surplus t rs E ds st1" and e1: "event_tag ev = Some t \<longrightarrow> out1 = []"
    using step_surplus [OF Cons.prems(2) _ s1] Cons.prems(3) by auto
  have "surplus t rs E ds st2 \<and> (\<forall>x\<in>set out2. message_tag x \<noteq> Some t)"
    using Cons.IH [OF k1 p1 _ s2] Cons.prems(3) by simp
  moreover have "\<forall>x\<in>set out1. message_tag x \<noteq> Some t"
    using o1 e1 by auto
  ultimately show ?case using eq by auto
qed

lemma message_ids_simps [simp]:
  "message_ids [] = []"
  "message_ids (m # ms) = message_id m @ message_ids ms"
  "message_ids (xs @ ys) = message_ids xs @ message_ids ys"
  by (simp_all add: message_ids_def)

lemma message_ids_send_family:
  "message_ids (send_family rs ds) = map read_id rs @ map read_id ds"
proof -
  have "message_ids (tag_duplex_reads c i ds) = map read_id ds" for c i
    by (induction ds arbitrary: i) simp_all
  moreover have "message_ids (map (\<lambda>subread. SimplexReadPtr (subread\<lparr>split_count := c\<rparr>)) rs) = map read_id rs" for c
    by (induction rs) simp_all
  ultimately show ?thesis by (simp add: send_family_def Let_def)
qed

lemma message_ids_map_simplex: "message_ids (map SimplexReadPtr rs) = map read_id rs"
  by (induction rs) simp_all

lemma worker_frame:
  assumes "worker_thread_step m st = Inr (st', out)" "message_tag m \<noteq> Some t"
  shows "tag_ids st' t = tag_ids st t"
  using assms
  by (cases m)
     (auto simp: worker_thread_step_def Let_def tag_ids_def at_or_empty_def read_common.truncate_def
           split: if_splits)

lemma worker_other:
  "worker_thread_step (OtherMessage i) st = Inr (st, [])"
  by (simp add: worker_thread_step_def)

lemma worker_conserve:
  assumes "worker_thread_step m st = Inr (st', out)" "message_tag m = Some t"
  shows "mset (tag_ids st' t) + mset (message_ids out) \<subseteq># mset (tag_ids st t) + mset (message_id m)"
  using assms
  by (cases m)
     (auto simp: worker_thread_step_def Let_def tag_ids_def at_or_empty_def read_common.truncate_def
                 message_ids_map_simplex
           split: if_splits option.splits)

lemma check_frame:
  assumes "check_duplex_thread_step u st = (st', out)" "u \<noteq> t"
  shows "tag_ids st' t = tag_ids st t"
  using assms
  by (auto simp: check_duplex_thread_step_def Let_def tag_ids_def at_or_empty_def
           split: if_splits option.splits)

lemma check_conserve:
  assumes "check_duplex_thread_step t st = (st', out)"
  shows "mset (tag_ids st' t) + mset (message_ids out) \<subseteq># mset (tag_ids st t)"
  using assms
  by (auto simp: check_duplex_thread_step_def Let_def tag_ids_def at_or_empty_def
                 message_ids_send_family
           split: if_splits option.splits)

lemma step_frame:
  assumes "tagger_step ev st = Inr (st', out)" "event_tag ev \<noteq> Some t"
  shows "tag_ids st' t = tag_ids st t"
  using assms by (cases ev) (auto dest: worker_frame check_frame)

lemma step_conserve:
  assumes "tagger_step ev st = Inr (st', out)" "event_tag ev = Some t"
  shows "mset (tag_ids st' t) + mset (message_ids out) \<subseteq># mset (tag_ids st t) + mset (event_ids ev)"
  using assms by (cases ev) (auto dest: worker_conserve check_conserve)

lemma step_untagged:
  assumes "tagger_step ev st = Inr (st', out)" "event_tag ev = None"
  shows "out = []"
  using assms by (cases ev; cases "case ev of Deliver m \<Rightarrow> m") (auto simp: worker_other)

lemma event_ids_short: "length (event_ids ev) \<le> 1"
  by (cases ev; cases "case ev of Deliver m \<Rightarrow> m") auto

lemma sub_distinct:
  assumes "mset xs \<subseteq># mset ys" "distinct ys"
  shows "distinct xs \<and> set xs \<subseteq> set ys"
proof -
  have "count (mset xs) a \<le> 1" for a
    using assms mset_subset_eq_count [OF assms(1), of a]
    by (metis distinct_count_atmost_1 order_trans le_refl zero_le_one count_mset_0_iff)
  then have "distinct xs"
    by (metis distinct_count_atmost_1 count_mset_0_iff le_antisym One_nat_def
          count_greater_eq_one_iff set_mset_mset)
  moreover have "set xs \<subseteq> set ys"
    using assms(1) by (metis set_mset_mono set_mset_mset)
  ultimately show ?thesis by simp
qed

lemma step_ids_apart:
  assumes inv: "ids_apart st acc"
    and fresh: "set (event_ids ev) \<inter> set acc = {}" "\<forall>t. set (event_ids ev) \<inter> set (tag_ids st t) = {}"
    and step: "tagger_step ev st = Inr (st', out)"
  shows "ids_apart st' (acc @ message_ids out) \<and>
         set (message_ids out) \<subseteq> (\<Union>t. set (tag_ids st t)) \<union> set (event_ids ev) \<and>
         (\<forall>t. set (tag_ids st' t) \<subseteq> (\<Union>t. set (tag_ids st t)) \<union> set (event_ids ev))"
proof (cases "event_tag ev")
  case None
  then have "out = []" using step_untagged [OF step] by simp
  moreover have "tag_ids st' t = tag_ids st t" for t
    using step_frame [OF step] None by simp
  ultimately show ?thesis using inv by (auto simp: ids_apart_def)
next
  case (Some tg)
  have fr: "tag_ids st' t = tag_ids st t" if "t \<noteq> tg" for t
    using step_frame [OF step, of t] Some that by simp
  have d0: "distinct (tag_ids st tg @ event_ids ev)"
  proof -
    have "distinct (event_ids ev)"
      using event_ids_short [of ev] by (cases "event_ids ev") auto
    then show ?thesis using inv fresh(2) by (auto simp: ids_apart_def)
  qed
  have "mset (tag_ids st' tg @ message_ids out) \<subseteq># mset (tag_ids st tg @ event_ids ev)"
    using step_conserve [OF step Some] by simp
  from sub_distinct [OF this d0]
  have d1: "distinct (tag_ids st' tg @ message_ids out)"
    and s1: "set (tag_ids st' tg) \<union> set (message_ids out) \<subseteq> set (tag_ids st tg) \<union> set (event_ids ev)"
    by auto
  have acc_tg: "set (tag_ids st tg) \<inter> set acc = {}" and dacc: "distinct acc"
    using inv by (simp_all add: ids_apart_def)
  have a: "distinct (acc @ message_ids out)"
    using dacc acc_tg d1 s1 fresh(1) by auto
  have b: "distinct (tag_ids st' t) \<and> set (tag_ids st' t) \<inter> set (acc @ message_ids out) = {}" for t
  proof (cases "t = tg")
    case True
    then show ?thesis using acc_tg d1 s1 fresh(1) by auto
  next
    case False
    have p: "set (tag_ids st t) \<inter> set (tag_ids st tg) = {}"
      using inv False by (simp add: ids_apart_def)
    have q: "set (event_ids ev) \<inter> set (tag_ids st t) = {}"
      using fresh(2) by simp
    have r: "distinct (tag_ids st t)" "set (tag_ids st t) \<inter> set acc = {}"
      using inv by (simp_all add: ids_apart_def)
    have "set (tag_ids st t) \<inter> set (message_ids out) = {}"
      using p q s1 by blast
    then show ?thesis using r fr [OF False] by auto
  qed
  have c: "set (tag_ids st' t) \<inter> set (tag_ids st' t') = {}" if "t \<noteq> t'" for t t'
  proof -
    have g: "set (tag_ids st' u) \<subseteq> (if u = tg then set (tag_ids st tg) \<union> set (event_ids ev)
                                     else set (tag_ids st u))" for u
      using s1 fr [of u] by auto
    have cross: "set (tag_ids st u) \<inter> set (tag_ids st u') = {}" if "u \<noteq> u'" for u u'
      using inv that by (simp add: ids_apart_def)
    have ev_fresh: "set (event_ids ev) \<inter> set (tag_ids st u) = {}" for u
      using fresh(2) by simp
    have away: "set (tag_ids st u) \<inter> (set (tag_ids st tg) \<union> set (event_ids ev)) = {}"
      if "u \<noteq> tg" for u
      using cross [OF that] ev_fresh [of u] by blast
    show ?thesis
    proof (cases "t = tg")
      case True
      then have "t' \<noteq> tg" using that by simp
      then show ?thesis using True g [of tg] g [of t'] away [of t'] by auto
    next
      case False
      show ?thesis
      proof (cases "t' = tg")
        case True
        then show ?thesis using False g [of tg] g [of t] away [of t] by auto
      next
        case False2: False
        then show ?thesis using False g [of t] g [of t'] cross [OF that] by auto
      qed
    qed
  qed
  have e: "set (tag_ids st' t) \<subseteq> (\<Union>t. set (tag_ids st t)) \<union> set (event_ids ev)" for t
    using s1 fr [of t] by (cases "t = tg") auto
  show ?thesis using a b c e s1 by (auto simp: ids_apart_def)
qed

lemma delivered_ids_Cons: "delivered_ids (ev # evs) = event_ids ev @ delivered_ids evs"
  by (simp add: delivered_ids_def)

lemma run_ids_apart:
  assumes "ids_apart st acc"
    and "distinct (delivered_ids evs)"
    and "set (delivered_ids evs) \<inter> set acc = {}"
    and "\<forall>t. set (delivered_ids evs) \<inter> set (tag_ids st t) = {}"
    and "tagger_run evs st = Inr (st', out)"
  shows "ids_apart st' (acc @ message_ids out)"
  using assms
proof (induction evs arbitrary: st acc st' out)
  case Nil
  then show ?case by simp
next
  case (Cons ev evs)
  from Cons.prems(5) obtain st1 out1 st2 out2 where
    s1: "tagger_step ev st = Inr (st1, out1)" and
    s2: "tagger_run evs st1 = Inr (st2, out2)" and
    eq: "st' = st2" "out = out1 @ out2"
    by (auto split: sum.splits prod.splits)
  have f1: "set (event_ids ev) \<inter> set acc = {}" "\<forall>t. set (event_ids ev) \<inter> set (tag_ids st t) = {}"
    using Cons.prems(3,4) by (auto simp: delivered_ids_Cons)
  note st = step_ids_apart [OF Cons.prems(1) f1 s1]
  have i1: "ids_apart st1 (acc @ message_ids out1)" using st by simp
  have o1: "set (message_ids out1) \<subseteq> (\<Union>t. set (tag_ids st t)) \<union> set (event_ids ev)"
    using st by simp
  have t1: "\<forall>t. set (tag_ids st1 t) \<subseteq> (\<Union>t. set (tag_ids st t)) \<union> set (event_ids ev)"
    using st by simp
  have d: "distinct (delivered_ids evs)" using Cons.prems(2) by (simp add: delivered_ids_Cons)
  have x: "set (delivered_ids evs) \<inter> set (event_ids ev) = {}"
    using Cons.prems(2) by (auto simp: delivered_ids_Cons)
  have y: "set (delivered_ids evs) \<inter> (\<Union>t. set (tag_ids st t)) = {}"
    using Cons.prems(4) by (auto simp: delivered_ids_Cons)
  have z: "set (delivered_ids evs) \<inter> set acc = {}"
    using Cons.prems(3) by (auto simp: delivered_ids_Cons)
  have f2: "set (delivered_ids evs) \<inter> set (acc @ message_ids out1) = {}"
    using o1 x y z by auto
  have f3: "\<forall>t. set (delivered_ids evs) \<inter> set (tag_ids st1 t) = {}"
    using t1 x y by blast
  show ?case using Cons.IH [OF i1 d f2 f3 s2] eq by simp
qed

lemma no_read_emitted_twice:
  assumes "tagger_run evs tagger_init = Inr (st, out)" "distinct (delivered_ids evs)"
  shows "distinct (message_ids out)"
proof -
  have "ids_apart tagger_init []"
    by (simp add: ids_apart_def tag_ids_def tagger_init_def at_or_empty_def)
  moreover have "\<forall>t. set (delivered_ids evs) \<inter> set (tag_ids tagger_init t) = {}"
    by (simp add: tag_ids_def tagger_init_def at_or_empty_def)
  ultimately have "ids_apart st ([] @ message_ids out)"
    using run_ids_apart [OF _ assms(2) _ _ assms(1), of "[]"] by simp
  then show ?thesis by (simp add: ids_apart_def)
qed

lemma step_waiting_expects:
  assumes "waiting_expects_duplex st" "tagger_step ev st = Inr (st', out)"
  shows "waiting_expects_duplex st'"
proof (cases ev)
  case (Deliver m)
  then show ?thesis using assms
    by (cases m)
       (auto simp: worker_thread_step_def Let_def waiting_expects_duplex_def
             split: if_splits)
next
  case (CheckDuplex u)
  then show ?thesis using assms
    by (auto simp: check_duplex_thread_step_def Let_def waiting_expects_duplex_def
             split: if_splits option.splits)
qed

lemma run_waiting_expects:
  "waiting_expects_duplex st \<Longrightarrow> tagger_run evs st = Inr (st', out) \<Longrightarrow>
   waiting_expects_duplex st'"
  by (induction evs arbitrary: st st' out)
     (auto split: sum.splits prod.splits dest: step_waiting_expects)

lemma waiting_expects_init: "waiting_expects_duplex tagger_init"
  by (simp add: waiting_expects_duplex_def tagger_init_def)

lemma at_or_empty_upd:
  "at_or_empty (m(k \<mapsto> v)) k' = (if k' = k then v else at_or_empty m k')"
  "at_or_empty (m(k := None)) k' = (if k' = k then [] else at_or_empty m k')"
  by (simp_all add: at_or_empty_def)

lemma step_complete_marked:
  assumes inv: "complete_marked st" and step: "tagger_step ev st = Inr (st', out)"
  shows "complete_marked st'"
  unfolding complete_marked_def
proof (intro allI impI, elim conjE)
  fix t rs E
  assume full: "m_full_subread_groups st' t = Some (rs, E)"
    and len: "length (at_or_empty (m_duplex_reads st') t) = E"
  have I: "t \<in> m_updated_read_tags st"
    if "m_full_subread_groups st t = Some (rs', E')"
       "length (at_or_empty (m_duplex_reads st) t) = E'" for rs' E'
    using inv that by (auto simp: complete_marked_def)
  show "t \<in> m_updated_read_tags st'"
  proof (cases ev)
    case (Deliver m)
    show ?thesis
    proof (cases m)
      case (SimplexReadPtr s)
      then show ?thesis using Deliver step full len I
        by (auto simp: worker_thread_step_def Let_def at_or_empty_upd split: if_splits)
    next
      case (DuplexReadPtr d)
      then show ?thesis using Deliver step full len I
        by (auto simp: worker_thread_step_def Let_def at_or_empty_upd split: if_splits)
    next
      case (OtherMessage i)
      then show ?thesis using Deliver step full len I
        by (auto simp: worker_thread_step_def)
    qed
  next
    case (CheckDuplex u)
    then show ?thesis using step full len I
      by (auto simp: check_duplex_thread_step_def Let_def at_or_empty_upd
               split: if_splits option.splits)
  qed
qed

lemma run_complete_marked:
  "complete_marked st \<Longrightarrow> tagger_run evs st = Inr (st', out) \<Longrightarrow> complete_marked st'"
  by (induction evs arbitrary: st st' out)
     (auto split: sum.splits prod.splits dest: step_complete_marked)

lemma complete_marked_init: "complete_marked tagger_init"
  by (simp add: complete_marked_def tagger_init_def)

lemma run_to_waiting:
  "tagger_run
     [Deliver (SimplexReadPtr (fragment ''A'' 9 2 0 1)),
      Deliver (SimplexReadPtr (fragment ''B'' 9 2 1 0)),
      Deliver (DuplexReadPtr (duplex ''A;B'' 9))] tagger_init = Inr (waiting_for_duplex, [])"
  by (simp add: worker_thread_step_def fragment_def duplex_def tagger_init_def at_or_empty_def
        read_common.truncate_def num_expected_duplex_of_def waiting_for_duplex_def)

lemma check_waiting:
  "check_duplex_thread_step 9 waiting_for_duplex =
     (tagger_init,
      [SimplexReadPtr ((fragment ''A'' 9 2 0 1)\<lparr>split_count := 3\<rparr>),
       SimplexReadPtr ((fragment ''B'' 9 2 1 0)\<lparr>split_count := 3\<rparr>),
       DuplexReadPtr ((duplex ''A;B'' 9)\<lparr>split_count := 3, subread_id := 2\<rparr>)])"
  by (simp add: check_duplex_thread_step_def waiting_for_duplex_def tagger_init_def
        at_or_empty_def send_family_def)

text \<open>
  Claim C1. In a run of the node from its initial state, a tag has a waiting group of \<open>S\<close>
  subreads that expects \<open>E\<close> duplex reads, and the duplex reads collected for the tag are
  \<open>E\<close> in number. Then \<open>E\<close> is positive and the tag is among those to reconcile, and the
  iteration of the reconciliation for it removes the tag from the waiting groups and
  from the duplex reads and sends \<open>S + E\<close> messages: first the subreads, each with
  \<open>split_count\<close> set to \<open>S + E\<close> and nothing else changed (so each keeps its
  \<open>subread_id\<close>), then the duplex reads in the order of collection, the \<open>i\<close>-th with
  \<open>split_count\<close> set to \<open>S + E\<close> and \<open>subread_id\<close> set to \<open>S + i\<close>.
\<close>

theorem complete_family_emitted_with_corrected_counts:
  assumes "tagger_run evs tagger_init = Inr (st, out)"
    and "m_full_subread_groups st tag = Some (subreads, E)"
    and "at_or_empty (m_duplex_reads st) tag = duplex_reads"
    and "length duplex_reads = E"
    and "S = length subreads"
  shows "0 < E \<and> tag \<in> m_updated_read_tags st \<and>
         m_full_subread_groups (fst (check_duplex_thread_step tag st)) tag = None \<and>
         m_duplex_reads (fst (check_duplex_thread_step tag st)) tag = None \<and>
         length (snd (check_duplex_thread_step tag st)) = S + E \<and>
         (\<forall>i<S. snd (check_duplex_thread_step tag st) ! i =
                   SimplexReadPtr ((subreads ! i)\<lparr>split_count := S + E\<rparr>)) \<and>
         (\<forall>i<E. snd (check_duplex_thread_step tag st) ! (S + i) =
                   DuplexReadPtr
                     ((duplex_reads ! i)\<lparr>split_count := S + E, subread_id := S + i\<rparr>))"
proof -
  have "waiting_expects_duplex st"
    using run_waiting_expects [OF waiting_expects_init assms(1)] .
  then have pos: "0 < E" using assms(2) by (auto simp: waiting_expects_duplex_def)
  have "complete_marked st"
    using run_complete_marked [OF complete_marked_init assms(1)] .
  then have dirty: "tag \<in> m_updated_read_tags st"
    using assms(2,3,4) by (auto simp: complete_marked_def)
  show ?thesis
    using pos dirty assms(2-5)
    by (simp add: check_duplex_thread_step_def Let_def send_family_def tag_duplex_reads_length
        nth_append tag_duplex_reads_nth)
qed

text \<open>
  The duplex example of the specification: tag 9 with \<open>split_count = 2\<close>, fragment A with
  one candidate pair, fragment B with none, and one duplex read. After the three
  deliveries the reconciliation emits A, B and the duplex read, each with
  \<open>split_count = 3\<close>, the duplex read with \<open>subread_id = 2\<close>.
\<close>

theorem complete_family_emitted_with_corrected_counts_witness:
  "tagger_run
     [Deliver (SimplexReadPtr (fragment ''A'' 9 2 0 1)),
      Deliver (SimplexReadPtr (fragment ''B'' 9 2 1 0)),
      Deliver (DuplexReadPtr (duplex ''A;B'' 9))] tagger_init = Inr (waiting_for_duplex, []) \<and>
   snd (check_duplex_thread_step 9 waiting_for_duplex) =
     [SimplexReadPtr ((fragment ''A'' 9 2 0 1)\<lparr>split_count := 3\<rparr>),
      SimplexReadPtr ((fragment ''B'' 9 2 1 0)\<lparr>split_count := 3\<rparr>),
      DuplexReadPtr ((duplex ''A;B'' 9)\<lparr>split_count := 3, subread_id := 2\<rparr>)] \<and>
   m_full_subread_groups (fst (check_duplex_thread_step 9 waiting_for_duplex)) 9 = None \<and>
   m_duplex_reads (fst (check_duplex_thread_step 9 waiting_for_duplex)) 9 = None"
proof -
  let ?out = "snd (check_duplex_thread_step 9 waiting_for_duplex)"
  have fam:
    "m_full_subread_groups (fst (check_duplex_thread_step 9 waiting_for_duplex)) 9 = None \<and>
     m_duplex_reads (fst (check_duplex_thread_step 9 waiting_for_duplex)) 9 = None \<and>
     length ?out = 2 + 1 \<and>
     (\<forall>i<2. ?out ! i =
        SimplexReadPtr
          (([fragment ''A'' 9 2 0 1, fragment ''B'' 9 2 1 0] ! i)\<lparr>split_count := 2 + 1\<rparr>)) \<and>
     (\<forall>i<1. ?out ! (2 + i) =
        DuplexReadPtr
          (([duplex ''A;B'' 9] ! i)\<lparr>split_count := 2 + 1, subread_id := 2 + i\<rparr>))"
    using complete_family_emitted_with_corrected_counts
            [OF run_to_waiting,
             of 9 "[fragment ''A'' 9 2 0 1, fragment ''B'' 9 2 1 0]" 1 "[duplex ''A;B'' 9]" 2]
    by (simp add: waiting_for_duplex_def at_or_empty_def)
  then have len: "length ?out = 3"
    and n0: "?out ! 0 = SimplexReadPtr ((fragment ''A'' 9 2 0 1)\<lparr>split_count := 3\<rparr>)"
    and n1: "?out ! 1 = SimplexReadPtr ((fragment ''B'' 9 2 1 0)\<lparr>split_count := 3\<rparr>)"
    and n2: "?out ! 2 =
               DuplexReadPtr ((duplex ''A;B'' 9)\<lparr>split_count := 3, subread_id := 2\<rparr>)"
    by auto
  have "?out = [?out ! 0, ?out ! 1, ?out ! 2]"
    using len
    by (auto simp: list_eq_iff_nth_eq less_Suc_eq numeral_3_eq_3 numeral_2_eq_2)
  then have "?out =
     [SimplexReadPtr ((fragment ''A'' 9 2 0 1)\<lparr>split_count := 3\<rparr>),
      SimplexReadPtr ((fragment ''B'' 9 2 1 0)\<lparr>split_count := 3\<rparr>),
      DuplexReadPtr ((duplex ''A;B'' 9)\<lparr>split_count := 3, subread_id := 2\<rparr>)]"
    using n0 n1 n2 by simp
  then show ?thesis using run_to_waiting fam by simp
qed

lemma delivered_ids_append [simp]:
  "delivered_ids (xs @ ys) = delivered_ids xs @ delivered_ids ys"
  by (simp add: delivered_ids_def)

lemma step_absent:
  assumes "absent_from_both t st" "\<not> delivers_read_for t ev" "tagger_step ev st = Inr (st', out)"
  shows "absent_from_both t st'"
proof (cases ev)
  case (Deliver m)
  then show ?thesis using assms
    by (cases m)
       (auto simp: worker_thread_step_def Let_def absent_from_both_def read_common.truncate_def
             split: if_splits)
next
  case (CheckDuplex u)
  then show ?thesis using assms
    by (auto simp: check_duplex_thread_step_def Let_def absent_from_both_def
             split: if_splits option.splits)
qed

lemma run_absent:
  assumes "absent_from_both t st" "\<forall>ev\<in>set evs. \<not> delivers_read_for t ev"
    "tagger_run evs st = Inr (st', out)"
  shows "absent_from_both t st'"
  using assms
proof (induction evs arbitrary: st st' out)
  case Nil
  then show ?case by simp
next
  case (Cons ev evs)
  from Cons.prems(3) obtain st1 out1 st2 out2 where
    s1: "tagger_step ev st = Inr (st1, out1)" and
    s2: "tagger_run evs st1 = Inr (st2, out2)" and
    eq: "st' = st2"
    by (auto split: sum.splits prod.splits)
  have "absent_from_both t st1"
    using step_absent [OF Cons.prems(1) _ s1] Cons.prems(2) by simp
  then show ?case using Cons.IH [OF _ _ s2] Cons.prems(2) eq by simp
qed

text \<open>
  Claim C9, as amended. In a run of the node from its initial state, the reconciliation
  handles a tag whose family is complete: the waiting group is there and the duplex reads
  are as many as it expects (such a tag is always among the tags to reconcile). The
  iteration is one critical section of \<^verbatim>\<open>m_duplex_reads_mutex\<close> (lines 66 to 94), the
  mutex under which the worker writes both maps, and one step of the model. Before it the
  tag is in both maps, after it the tag is in neither, and the entries of the other tags
  are as they were; the step emits the family. From then on the tag stays out of both
  maps as long as no read with that tag is delivered, whatever else the node does. And
  whatever the run delivers later, with every read delivered once in the whole run, no
  read of the family is emitted a second time: the ids of all messages emitted before, by
  this step and after are pairwise different.
\<close>

theorem family_leaves_both_maps_until_tag_returns:
  assumes run: "tagger_run evs tagger_init = Inr (st, out)"
    and waiting: "m_full_subread_groups st tag = Some (subreads, E)"
    and complete: "length (at_or_empty (m_duplex_reads st) tag) = E"
    and step: "check_duplex_thread_step tag st = (st', family)"
  shows "(tag \<in> dom (m_full_subread_groups st) \<and> tag \<in> dom (m_duplex_reads st)) \<and>
         (tag \<notin> dom (m_full_subread_groups st') \<and> tag \<notin> dom (m_duplex_reads st')) \<and>
         (\<forall>t. t \<noteq> tag \<longrightarrow>
            m_full_subread_groups st' t = m_full_subread_groups st t \<and>
            m_duplex_reads st' t = m_duplex_reads st t) \<and>
         family = send_family subreads (at_or_empty (m_duplex_reads st) tag) \<and>
         (\<forall>later st'' out''.
            tagger_run later st' = Inr (st'', out'') \<and>
            (\<forall>ev\<in>set later. \<not> delivers_read_for tag ev) \<longrightarrow>
            tag \<notin> dom (m_full_subread_groups st'') \<and> tag \<notin> dom (m_duplex_reads st'')) \<and>
         (\<forall>later st'' out''.
            tagger_run later st' = Inr (st'', out'') \<and> distinct (delivered_ids (evs @ later)) \<longrightarrow>
            distinct (message_ids (out @ family @ out'')))"
proof -
  have "complete_marked st"
    using run_complete_marked [OF complete_marked_init run] .
  then have dirty: "tag \<in> m_updated_read_tags st"
    using waiting complete by (auto simp: complete_marked_def)
  have "waiting_expects_duplex st"
    using run_waiting_expects [OF waiting_expects_init run] .
  then have "0 < E" using waiting by (auto simp: waiting_expects_duplex_def)
  then have before: "tag \<in> dom (m_full_subread_groups st) \<and> tag \<in> dom (m_duplex_reads st)"
    using waiting complete by (auto simp: at_or_empty_def split: option.splits)
  have st': "st' = st\<lparr>m_updated_read_tags := m_updated_read_tags st - {tag},
                      m_duplex_reads := (m_duplex_reads st)(tag := None),
                      m_full_subread_groups := (m_full_subread_groups st)(tag := None)\<rparr>"
    and fam: "family = send_family subreads (at_or_empty (m_duplex_reads st) tag)"
    using step dirty waiting complete
    by (auto simp: check_duplex_thread_step_def Let_def)
  have once: "distinct (message_ids (out @ family @ out''))"
    if later: "tagger_run later st' = Inr (st'', out'')"
      and d: "distinct (delivered_ids (evs @ later))" for later st'' out''
  proof -
    have "tagger_run (evs @ [CheckDuplex tag]) tagger_init = Inr (st', out @ family)"
      using tagger_run_snoc [OF run, of "CheckDuplex tag" st' family] step by simp
    from tagger_run_append [OF this, of later]
    have "tagger_run ((evs @ [CheckDuplex tag]) @ later) tagger_init =
            Inr (st'', (out @ family) @ out'')"
      using later by simp
    moreover have "distinct (delivered_ids ((evs @ [CheckDuplex tag]) @ later))"
      using d by (simp add: delivered_ids_def)
    ultimately show ?thesis
      using no_read_emitted_twice by fastforce
  qed
  have after: "tag \<notin> dom (m_full_subread_groups st') \<and> tag \<notin> dom (m_duplex_reads st')"
    using st' by simp
  then have absent: "absent_from_both tag st'"
    by (simp add: absent_from_both_def)
  have others: "\<forall>t. t \<noteq> tag \<longrightarrow>
            m_full_subread_groups st' t = m_full_subread_groups st t \<and>
            m_duplex_reads st' t = m_duplex_reads st t"
    using st' by simp
  have stays: "\<forall>later st'' out''.
            tagger_run later st' = Inr (st'', out'') \<and>
            (\<forall>ev\<in>set later. \<not> delivers_read_for tag ev) \<longrightarrow>
            tag \<notin> dom (m_full_subread_groups st'') \<and> tag \<notin> dom (m_duplex_reads st'')"
  proof (intro allI impI, elim conjE)
    fix later st'' out''
    assume "tagger_run later st' = Inr (st'', out'')"
      and "\<forall>ev\<in>set later. \<not> delivers_read_for tag ev"
    from run_absent [OF absent this(2) this(1)]
    show "tag \<notin> dom (m_full_subread_groups st'') \<and> tag \<notin> dom (m_duplex_reads st'')"
      by (simp add: absent_from_both_def)
  qed
  have never_again: "\<forall>later st'' out''.
            tagger_run later st' = Inr (st'', out'') \<and> distinct (delivered_ids (evs @ later)) \<longrightarrow>
            distinct (message_ids (out @ family @ out''))"
    using once by blast
  from before after others fam stays never_again show ?thesis
    by (rule conjI [OF _ conjI [OF _ conjI [OF _ conjI [OF _ conjI]]]])
qed

lemma run_family_of_9:
  "tagger_run
     [Deliver (SimplexReadPtr (fragment ''A'' 9 2 0 1)),
      Deliver (SimplexReadPtr (fragment ''B'' 9 2 1 0)),
      Deliver (DuplexReadPtr (duplex ''A;B'' 9)), CheckDuplex 9] tagger_init =
   Inr (tagger_init, family_of_9)"
  using tagger_run_snoc [OF run_to_waiting, of "CheckDuplex 9" tagger_init family_of_9]
    check_waiting
  by (simp add: family_of_9_def)

text \<open>
  Claim C9 as stated fails in its last two clauses. After the family of tag 9 has been
  emitted, a further duplex read with tag 9 is filed in the duplex map, and the next
  reconciliation finds the tag there and not among the waiting groups: the tag is in one
  map and not in the other, and stays there. And when the three reads of the family are
  delivered a second time, the family is emitted a second time.
\<close>

theorem tag_in_one_map_after_completion_counterexample:
  "tagger_run
     ([Deliver (SimplexReadPtr (fragment ''A'' 9 2 0 1)),
       Deliver (SimplexReadPtr (fragment ''B'' 9 2 1 0)),
       Deliver (DuplexReadPtr (duplex ''A;B'' 9)), CheckDuplex 9] @
      [Deliver (DuplexReadPtr (duplex ''late'' 9)), CheckDuplex 9]) tagger_init =
     Inr (tagger_init\<lparr>m_duplex_reads := [9 \<mapsto> [duplex ''late'' 9]]\<rparr>, family_of_9 @ []) \<and>
   m_full_subread_groups (tagger_init\<lparr>m_duplex_reads := [9 \<mapsto> [duplex ''late'' 9]]\<rparr>) 9 = None \<and>
   m_duplex_reads (tagger_init\<lparr>m_duplex_reads := [9 \<mapsto> [duplex ''late'' 9]]\<rparr>) 9 =
     Some [duplex ''late'' 9] \<and>
   tagger_run
     ([Deliver (SimplexReadPtr (fragment ''A'' 9 2 0 1)),
       Deliver (SimplexReadPtr (fragment ''B'' 9 2 1 0)),
       Deliver (DuplexReadPtr (duplex ''A;B'' 9)), CheckDuplex 9] @
      [Deliver (SimplexReadPtr (fragment ''A'' 9 2 0 1)),
       Deliver (SimplexReadPtr (fragment ''B'' 9 2 1 0)),
       Deliver (DuplexReadPtr (duplex ''A;B'' 9)), CheckDuplex 9]) tagger_init =
     Inr (tagger_init, family_of_9 @ family_of_9)"
proof -
  have late: "tagger_run [Deliver (DuplexReadPtr (duplex ''late'' 9)), CheckDuplex 9] tagger_init =
               Inr (tagger_init\<lparr>m_duplex_reads := [9 \<mapsto> [duplex ''late'' 9]]\<rparr>, [])"
    by (simp add: worker_thread_step_def check_duplex_thread_step_def duplex_def tagger_init_def
          at_or_empty_def)
  show ?thesis
    using tagger_run_append [OF run_family_of_9,
            of "[Deliver (DuplexReadPtr (duplex ''late'' 9)), CheckDuplex 9]"]
          tagger_run_append [OF run_family_of_9,
            of "[Deliver (SimplexReadPtr (fragment ''A'' 9 2 0 1)),
                 Deliver (SimplexReadPtr (fragment ''B'' 9 2 1 0)),
                 Deliver (DuplexReadPtr (duplex ''A;B'' 9)), CheckDuplex 9]"]
          late run_family_of_9
    by (simp add: tagger_init_def)
qed

text \<open>
  The duplex example again: the family of tag 9 leaves both maps; a fragment of tag 2 and
  two more reconciliations leave tag 9 out of both; and with a further duplex read for
  tag 9 no read is emitted twice.
\<close>

theorem family_leaves_both_maps_until_tag_returns_witness:
  "(9 \<in> dom (m_full_subread_groups waiting_for_duplex) \<and>
    9 \<in> dom (m_duplex_reads waiting_for_duplex)) \<and>
   (9 \<notin> dom (m_full_subread_groups tagger_init) \<and> 9 \<notin> dom (m_duplex_reads tagger_init)) \<and>
   (9 \<notin> dom (m_full_subread_groups
              (tagger_init\<lparr>m_subread_groups := [2 \<mapsto> [fragment ''C'' 2 2 0 0]]\<rparr>)) \<and>
    9 \<notin> dom (m_duplex_reads
              (tagger_init\<lparr>m_subread_groups := [2 \<mapsto> [fragment ''C'' 2 2 0 0]]\<rparr>))) \<and>
   distinct (message_ids ([] @ family_of_9 @ []))"
proof -
  let ?later = "[CheckDuplex 9, Deliver (DuplexReadPtr (duplex ''late'' 9)), CheckDuplex 9]"
  let ?other = "[CheckDuplex 9, Deliver (SimplexReadPtr (fragment ''C'' 2 2 0 0)), CheckDuplex 2]"
  have later: "tagger_run ?later tagger_init =
               Inr (tagger_init\<lparr>m_duplex_reads := [9 \<mapsto> [duplex ''late'' 9]]\<rparr>, [])"
    by (simp add: worker_thread_step_def check_duplex_thread_step_def duplex_def tagger_init_def
          at_or_empty_def)
  have other: "tagger_run ?other tagger_init =
               Inr (tagger_init\<lparr>m_subread_groups := [2 \<mapsto> [fragment ''C'' 2 2 0 0]]\<rparr>, [])"
    by (simp add: worker_thread_step_def check_duplex_thread_step_def fragment_def tagger_init_def
          at_or_empty_def read_common.truncate_def)
  have quiet: "\<forall>ev\<in>set ?other. \<not> delivers_read_for 9 ev"
    by (simp add: fragment_def)
  have ids: "distinct (delivered_ids
       ([Deliver (SimplexReadPtr (fragment ''A'' 9 2 0 1)),
         Deliver (SimplexReadPtr (fragment ''B'' 9 2 1 0)),
         Deliver (DuplexReadPtr (duplex ''A;B'' 9))] @ ?later))"
    by (simp add: delivered_ids_def fragment_def duplex_def)
  have waiting: "m_full_subread_groups waiting_for_duplex 9 =
                    Some ([fragment ''A'' 9 2 0 1, fragment ''B'' 9 2 1 0], 1)"
    and complete: "length (at_or_empty (m_duplex_reads waiting_for_duplex) 9) = 1"
    by (simp_all add: waiting_for_duplex_def at_or_empty_def)
  have check: "check_duplex_thread_step 9 waiting_for_duplex = (tagger_init, family_of_9)"
    using check_waiting by (simp add: family_of_9_def)
  note fact = family_leaves_both_maps_until_tag_returns
                [OF run_to_waiting waiting complete check]
  from fact have both: "(9 \<in> dom (m_full_subread_groups waiting_for_duplex) \<and>
    9 \<in> dom (m_duplex_reads waiting_for_duplex)) \<and>
   (9 \<notin> dom (m_full_subread_groups tagger_init) \<and> 9 \<notin> dom (m_duplex_reads tagger_init))"
    by blast
  from fact have "\<forall>later st'' out''.
      tagger_run later tagger_init = Inr (st'', out'') \<and>
      (\<forall>ev\<in>set later. \<not> delivers_read_for 9 ev) \<longrightarrow>
      9 \<notin> dom (m_full_subread_groups st'') \<and> 9 \<notin> dom (m_duplex_reads st'')"
    by blast
  with other quiet have away:
    "9 \<notin> dom (m_full_subread_groups
              (tagger_init\<lparr>m_subread_groups := [2 \<mapsto> [fragment ''C'' 2 2 0 0]]\<rparr>)) \<and>
     9 \<notin> dom (m_duplex_reads
              (tagger_init\<lparr>m_subread_groups := [2 \<mapsto> [fragment ''C'' 2 2 0 0]]\<rparr>))"
    by blast
  from fact have "\<forall>later st'' out''.
      tagger_run later tagger_init = Inr (st'', out'') \<and>
      distinct (delivered_ids
        ([Deliver (SimplexReadPtr (fragment ''A'' 9 2 0 1)),
          Deliver (SimplexReadPtr (fragment ''B'' 9 2 1 0)),
          Deliver (DuplexReadPtr (duplex ''A;B'' 9))] @ later)) \<longrightarrow>
      distinct (message_ids ([] @ family_of_9 @ out''))"
    by blast
  with later ids have "distinct (message_ids ([] @ family_of_9 @ []))"
    by blast
  with both away show ?thesis by blast
qed

text \<open>
  Claim C10, as amended. In a run of the node, a tag has a waiting group that expects \<open>E\<close>
  duplex reads and more than \<open>E\<close> duplex reads recorded. Whatever events follow, as long
  as no simplex fragment for that tag is delivered among them, the waiting group stays
  in the ledger unchanged, the recorded duplex reads stay at the front of the tag's
  duplex entry, and no message with that tag reaches the sink.
\<close>

theorem surplus_family_stays_buffered:
  assumes "tagger_run before tagger_init = Inr (st, out0)"
    and "m_full_subread_groups st tag = Some (subreads, E)"
    and "m_duplex_reads st tag = Some duplex_reads"
    and "E < length duplex_reads"
    and "\<forall>ev\<in>set later. \<not> delivers_simplex_for tag ev"
    and "tagger_run later st = Inr (st', out)"
  shows "m_full_subread_groups st' tag = Some (subreads, E) \<and>
         (\<exists>more. m_duplex_reads st' tag = Some (duplex_reads @ more)) \<and>
         (\<forall>m\<in>set out. message_tag m \<noteq> Some tag)"
proof -
  have k: "keyed st" using run_keyed [OF keyed_init assms(1)] .
  have s: "surplus tag subreads E duplex_reads st"
    using assms(2,3,4) by (simp add: surplus_def)
  from run_surplus [OF k s assms(5,6)] show ?thesis
    by (simp add: surplus_def)
qed

text \<open>
  Claim C10 as stated fails. Tag 1 has the waiting group \<open>[A]\<close>, which expects one duplex
  read, and two duplex reads recorded. A further simplex read B for tag 1, complete on its
  own and with two candidate pairs, replaces the waiting group (line 55); the next
  reconciliation finds two duplex reads for two expected and emits B and the two buffered
  duplex reads. Read A is dropped when the entry is overwritten, not at shutdown.
\<close>

theorem surplus_family_emitted_counterexample:
  "tagger_run
     [Deliver (SimplexReadPtr (fragment ''A'' 1 1 0 1)),
      Deliver (DuplexReadPtr (duplex ''d1'' 1)),
      Deliver (DuplexReadPtr (duplex ''d2'' 1)),
      CheckDuplex 1] tagger_init = Inr (over_supplied, []) \<and>
   m_full_subread_groups over_supplied 1 = Some ([fragment ''A'' 1 1 0 1], 1) \<and>
   m_duplex_reads over_supplied 1 = Some [duplex ''d1'' 1, duplex ''d2'' 1] \<and>
   tagger_run
     [Deliver (SimplexReadPtr (fragment ''B'' 1 1 0 2)), CheckDuplex 1] over_supplied =
     Inr (tagger_init,
          [SimplexReadPtr ((fragment ''B'' 1 1 0 2)\<lparr>split_count := 3\<rparr>),
           DuplexReadPtr ((duplex ''d1'' 1)\<lparr>split_count := 3, subread_id := 1\<rparr>),
           DuplexReadPtr ((duplex ''d2'' 1)\<lparr>split_count := 3, subread_id := 2\<rparr>)])"
  by (simp add: worker_thread_step_def check_duplex_thread_step_def fragment_def duplex_def
        tagger_init_def at_or_empty_def read_common.truncate_def num_expected_duplex_of_def
        over_supplied_def send_family_def)

lemma run_to_over_supplied:
  "tagger_run
     [Deliver (SimplexReadPtr (fragment ''A'' 1 1 0 1)),
      Deliver (DuplexReadPtr (duplex ''d1'' 1)),
      Deliver (DuplexReadPtr (duplex ''d2'' 1)),
      CheckDuplex 1] tagger_init = Inr (over_supplied, [])"
  by (simp add: worker_thread_step_def check_duplex_thread_step_def fragment_def duplex_def
        tagger_init_def at_or_empty_def read_common.truncate_def num_expected_duplex_of_def
        over_supplied_def send_family_def)

text \<open>
  After a third duplex read, a reconciliation, a read of another tag and a message that is
  not a read, the waiting group and the duplex reads of tag 1 are still there.
\<close>

theorem surplus_family_stays_buffered_witness:
  "m_full_subread_groups
     (over_supplied\<lparr>m_duplex_reads :=
        [1 \<mapsto> [duplex ''d1'' 1, duplex ''d2'' 1, duplex ''d3'' 1]]\<rparr>) 1 =
     Some ([fragment ''A'' 1 1 0 1], 1) \<and>
   (\<exists>more. m_duplex_reads
      (over_supplied\<lparr>m_duplex_reads :=
         [1 \<mapsto> [duplex ''d1'' 1, duplex ''d2'' 1, duplex ''d3'' 1]]\<rparr>) 1 =
      Some ([duplex ''d1'' 1, duplex ''d2'' 1] @ more))"
proof -
  have later: "tagger_run
      [Deliver (DuplexReadPtr (duplex ''d3'' 1)), CheckDuplex 1,
       Deliver (SimplexReadPtr (fragment ''C'' 2 1 0 0)), Deliver (OtherMessage 5)]
      over_supplied =
      Inr (over_supplied\<lparr>m_duplex_reads :=
             [1 \<mapsto> [duplex ''d1'' 1, duplex ''d2'' 1, duplex ''d3'' 1]]\<rparr>,
           [SimplexReadPtr (fragment ''C'' 2 1 0 0)])"
    by (simp add: worker_thread_step_def check_duplex_thread_step_def fragment_def duplex_def
          at_or_empty_def read_common.truncate_def num_expected_duplex_of_def
          over_supplied_def)
  have allowed: "\<forall>ev\<in>set [Deliver (DuplexReadPtr (duplex ''d3'' 1)), CheckDuplex 1,
       Deliver (SimplexReadPtr (fragment ''C'' 2 1 0 0)), Deliver (OtherMessage 5)].
       \<not> delivers_simplex_for 1 ev"
    by (simp add: fragment_def duplex_def)
  show ?thesis
    using surplus_family_stays_buffered [OF run_to_over_supplied _ _ _ allowed later,
            of "[fragment ''A'' 1 1 0 1]" 1 "[duplex ''d1'' 1, duplex ''d2'' 1]"]
    by (simp add: over_supplied_def)
qed

section \<open>Properties of the pairing encoder\<close>

lemma worker_on_matched_pair:
  assumes "matched_pair st read = Some (partner_id, template_read, complement_read)"
  shows "stereo_worker_step ext (ReadMessage read) st =
           (case stereo_encode ext template_read complement_read of
              Inl e \<Rightarrow> Inl e
            | Inr stereo_encoded_read \<Rightarrow>
                Inr (st\<lparr>read_cache := (read_cache st)(partner_id := None)\<rparr>,
                     if ndimension (raw_data stereo_encoded_read) = 2
                     then [stereo_encoded_read] else []))"
  using assms
  by (auto simp: matched_pair_def stereo_worker_step_def Let_def
           split: option.splits sum.splits)

lemma equal_lengths_pass:
  assumes "r 0 = 0"
  shows "\<not> length_ratio_too_large r n n"
  using assms by (simp add: length_ratio_too_large_def Let_def float_0_05_def)

lemma ndimension_default: "ndimension (raw_data default_Read) = 1"
  by (simp add: default_Read_def default_tensor_def ndimension_def)

lemma stereo_encode_rejected:
  assumes "length_ratio_too_large (rnd ext) (length (seq template_read))
             (length (seq complement_read))"
  shows "stereo_encode ext template_read complement_read = Inr default_Read"
  using assms by (simp add: stereo_encode_def)

lemma stereo_encode_walk:
  assumes "\<not> length_ratio_too_large (rnd ext) (length (seq template_read))
             (length (seq complement_read))"
    and "trimmed_alignment ext (seq template_read) (seq complement_read) =
           ((start_alignment_position, end_alignment_position), cursors)"
    and "end_alignment_position - start_alignment_position > 200"
  shows "stereo_encode ext template_read complement_read =
           (case encode_signal ext template_read complement_read
                   ((start_alignment_position, end_alignment_position), cursors) of
              Inl e \<Rightarrow> Inl e
            | Inr columns \<Rightarrow>
                Inr (default_Read\<lparr>Read_read_id :=
                                    Read_read_id template_read @ '';''
                                      @ Read_read_id complement_read,
                                  raw_data := Tensor [kNumFeatures, columns]\<rparr>))"
  using assms by (simp add: stereo_encode_def Let_def kMinTrimmedAlignmentLength_def)

text \<open>
  Claim C8. A read arrives whose partner is cached, and the trimmed alignment of the pair
  is empty or inverted (its end is not after its start) or has fewer than 200 columns.
  Then \<open>stereo_encode\<close> returns the default read without raising anything, and the worker
  removes the partner from the cache, pushes nothing to the sink and goes on.
\<close>

theorem short_span_dropped_silently:
  assumes "matched_pair st read = Some (partner_id, template_read, complement_read)"
    and "trimmed_alignment ext (seq template_read) (seq complement_read) =
           ((start_alignment_position, end_alignment_position), cursors)"
    and "end_alignment_position \<le> start_alignment_position \<or>
         end_alignment_position - start_alignment_position < 200"
  shows "stereo_encode ext template_read complement_read = Inr default_Read \<and>
         stereo_worker_step ext (ReadMessage read) st =
           Inr (st\<lparr>read_cache := (read_cache st)(partner_id := None)\<rparr>, [])"
proof -
  have "stereo_encode ext template_read complement_read = Inr default_Read"
    using assms(2,3)
    by (auto simp: stereo_encode_def Let_def kMinTrimmedAlignmentLength_def)
  then show ?thesis
    using worker_on_matched_pair [OF assms(1), of ext] by (simp add: ndimension_default)
qed

text \<open>
  The walk on regular reads: \<open>L\<close> moves that are all one, five raw samples for each move
  and an alignment of matches. Every column takes five samples of either strand.
\<close>

lemma length_concat_replicate: "length (concat (replicate L p)) = L * length p"
  by (induction L) simp_all

lemma expand_regular_moves:
  "expand_moves (replicate L 1) (5 * L) = concat (replicate L [1, 0, 0, 0, 0])"
  by (simp add: expand_moves_def stride_def numeral_eq_Suc length_concat_replicate)

lemma cons_concat_rotate:
  "x # concat (replicate L (ys @ [x])) = concat (replicate L (x # ys)) @ [x]"
  by (induction L) simp_all

lemma reverse_moves_rotate:
  "butlast (rev (concat (replicate L (x # ys)) @ [x])) = concat (replicate L (x # rev ys))"
proof -
  have "rev (concat (replicate L (x # ys))) = concat (replicate L (rev ys @ [x]))"
    by (simp add: rev_concat)
  then have "rev (concat (replicate L (x # ys)) @ [x]) = concat (replicate L (x # rev ys)) @ [x]"
    using cons_concat_rotate [of x L "rev ys"] by simp
  then show ?thesis by simp
qed

lemma reverse_regular_moves:
  "reverse_moves (concat (replicate L [1, 0, 0, 0, 0])) = concat (replicate L [1, 0, 0, 0, 0])"
proof -
  have "rev [0, 0, 0, 0::nat] = [0, 0, 0, 0]" by simp
  then have "butlast (rev (concat (replicate L [1::nat, 0, 0, 0, 0]) @ [1])) =
      concat (replicate L [1, 0, 0, 0, 0])"
    using reverse_moves_rotate [of L "1::nat" "[0, 0, 0, 0]"] by (simp only:)
  then show ?thesis unfolding reverse_moves_def .
qed

lemma drop_concat_replicate:
  assumes "length p = n"
  shows "drop (n * j) (concat (replicate L p)) = concat (replicate (L - j) p)"
proof (induction j arbitrary: L)
  case 0
  then show ?case by simp
next
  case (Suc j)
  show ?case
  proof (cases L)
    case 0
    then show ?thesis by simp
  next
    case (Suc L')
    then show ?thesis using Suc.IH [of L'] assms by simp
  qed
qed

lemma advance_regular:
  assumes "j + 1 < L"
  shows "advance_signal (5 * L) (concat (replicate L [1, 0, 0, 0, 0])) (5 * j) =
           Some (5 * (j + 1), 5)"
proof -
  obtain m where m: "L - j = Suc (Suc m)"
    using assms by (metis Suc_diff_Suc Suc_eq_plus1 add_lessD1)
  have "drop (5 * j) (concat (replicate L [1::nat, 0, 0, 0, 0])) =
          concat (replicate (L - j) [1, 0, 0, 0, 0])"
    by (rule drop_concat_replicate) simp
  then have "drop (5 * j) (concat (replicate L [1::nat, 0, 0, 0, 0])) =
          [1, 0, 0, 0, 0] @ [1, 0, 0, 0, 0] @ concat (replicate m [1, 0, 0, 0, 0])"
    by (simp add: m)
  then have "drop 1 (drop (5 * j) (concat (replicate L [1::nat, 0, 0, 0, 0]))) =
          [0, 0, 0, 0] @ [1, 0, 0, 0, 0] @ concat (replicate m [1, 0, 0, 0, 0])"
    by simp
  then have rest: "drop (5 * j + 1) (concat (replicate L [1::nat, 0, 0, 0, 0])) =
          [0, 0, 0, 0] @ [1, 0, 0, 0, 0] @ concat (replicate m [1, 0, 0, 0, 0])"
    by (simp add: add.commute)
  have "5 * j < 5 * L" using assms by simp
  then show ?thesis
    using assms rest by (simp add: advance_signal_def Let_def)
qed

lemma seek_moves_done:
  "\<not> moves_seen < wanted \<Longrightarrow>
   seek_moves moves_seen wanted signal_cursor rest = Some signal_cursor"
  by (cases rest) simp_all

lemma template_signal_start_regular:
  assumes "0 < L"
  shows "template_signal_start (concat (replicate L [1, 0, 0, 0, 0])) 0 = Some 0"
proof -
  obtain L' where "L = Suc L'" using assms by (cases L) auto
  then show ?thesis by (simp add: template_signal_start_def seek_moves_done)
qed

lemma complement_signal_start_regular:
  assumes "0 < L"
  shows "complement_signal_start (replicate L 1) moves_expanded 0 = Some 0"
proof -
  obtain L' where "L = Suc L'" using assms by (cases L) auto
  then show ?thesis by (simp add: complement_signal_start_def seek_moves_done)
qed

lemma encode_column_regular:
  assumes inp: "inp =
      \<lparr>alignment_ops = replicate A 0,
       template_moves_expanded = concat (replicate L [1, 0, 0, 0, 0]),
       complement_moves_expanded = concat (replicate L [1, 0, 0, 0, 0]),
       template_raw_size = 5 * L, complement_raw_size = 5 * L,
       template_sequence_size = ts, template_q_scores_size = tq,
       complement_sequence_size = cs, complement_q_scores_size = cq\<rparr>"
    and j: "j + 1 < L" "j < A" "j < ts" "j < tq" "j < cs" "j < cq"
  shows "encode_column inp (int j)
           \<lparr>template_signal_cursor = 5 * j, complement_signal_cursor = 5 * j,
            target_cursor = int j, query_cursor = int j, stereo_global_cursor = 5 * j\<rparr> =
         Inr \<lparr>template_signal_cursor = 5 * (j + 1), complement_signal_cursor = 5 * (j + 1),
              target_cursor = int (j + 1), query_cursor = int (j + 1),
              stereo_global_cursor = 5 * (j + 1)\<rparr>"
  using j advance_regular [OF j(1)]
  by (simp add: encode_column_def inp Let_def at_in_range_def kAlignInsertionToQuery_def
      kAlignInsertionToTarget_def)

lemma encode_columns_regular:
  assumes inp: "inp =
      \<lparr>alignment_ops = replicate A 0,
       template_moves_expanded = concat (replicate L [1, 0, 0, 0, 0]),
       complement_moves_expanded = concat (replicate L [1, 0, 0, 0, 0]),
       template_raw_size = 5 * L, complement_raw_size = 5 * L,
       template_sequence_size = ts, template_q_scores_size = tq,
       complement_sequence_size = cs, complement_q_scores_size = cq\<rparr>"
  shows "j + n < L \<Longrightarrow> j + n \<le> A \<Longrightarrow> j + n \<le> ts \<Longrightarrow> j + n \<le> tq \<Longrightarrow> j + n \<le> cs \<Longrightarrow>
         j + n \<le> cq \<Longrightarrow>
         encode_columns inp n (int j)
           \<lparr>template_signal_cursor = 5 * j, complement_signal_cursor = 5 * j,
            target_cursor = int j, query_cursor = int j, stereo_global_cursor = 5 * j\<rparr> =
         Inr \<lparr>template_signal_cursor = 5 * (j + n), complement_signal_cursor = 5 * (j + n),
              target_cursor = int (j + n), query_cursor = int (j + n),
              stereo_global_cursor = 5 * (j + n)\<rparr>"
proof (induction n arbitrary: j)
  case 0
  then show ?case by simp
next
  case (Suc n)
  have step: "encode_column inp (int j)
           \<lparr>template_signal_cursor = 5 * j, complement_signal_cursor = 5 * j,
            target_cursor = int j, query_cursor = int j, stereo_global_cursor = 5 * j\<rparr> =
         Inr \<lparr>template_signal_cursor = 5 * (j + 1), complement_signal_cursor = 5 * (j + 1),
              target_cursor = int (j + 1), query_cursor = int (j + 1),
              stereo_global_cursor = 5 * (j + 1)\<rparr>"
    using Suc.prems by (intro encode_column_regular [OF inp]) simp_all
  have rest: "encode_columns inp n (int (j + 1))
           \<lparr>template_signal_cursor = 5 * (j + 1), complement_signal_cursor = 5 * (j + 1),
            target_cursor = int (j + 1), query_cursor = int (j + 1),
            stereo_global_cursor = 5 * (j + 1)\<rparr> =
         Inr \<lparr>template_signal_cursor = 5 * (j + 1 + n),
              complement_signal_cursor = 5 * (j + 1 + n),
              target_cursor = int (j + 1 + n), query_cursor = int (j + 1 + n),
              stereo_global_cursor = 5 * (j + 1 + n)\<rparr>"
    using Suc.prems by (intro Suc.IH) simp_all
  have "int j + 1 = int (j + 1)" by simp
  then show ?case
    using rest by (simp only: encode_columns.simps step sum.case) (simp add: add.commute)
qed


lemma encode_signal_regular:
  assumes reads: "moves template_read = replicate L 1" "moves complement_read = replicate L 1"
      "raw_data template_read = Tensor [5 * L]" "raw_data complement_read = Tensor [5 * L]"
    and ops: "alignment ext (seq template_read) (seq complement_read) = replicate A 0"
    and n: "n < L" "n \<le> A" "n \<le> length (seq template_read)"
      "n \<le> length (qstring template_read)"
      "n \<le> length (reverse_complement ext (seq complement_read))"
      "n \<le> length (qstring complement_read)"
  shows "encode_signal ext template_read complement_read ((0, int n), (0, 0)) = Inr (5 * n)"
proof -
  have L: "0 < L" using n by simp
  have walk: "encode_columns
      \<lparr>alignment_ops = replicate A 0,
       template_moves_expanded = concat (replicate L [1, 0, 0, 0, 0]),
       complement_moves_expanded = concat (replicate L [1, 0, 0, 0, 0]),
       template_raw_size = 5 * L, complement_raw_size = 5 * L,
       template_sequence_size = length (seq template_read),
       template_q_scores_size = length (qstring template_read),
       complement_sequence_size = length (reverse_complement ext (seq complement_read)),
       complement_q_scores_size = length (qstring complement_read)\<rparr> n (int 0)
      \<lparr>template_signal_cursor = 5 * 0, complement_signal_cursor = 5 * 0,
       target_cursor = int 0, query_cursor = int 0, stereo_global_cursor = 5 * 0\<rparr> =
      Inr \<lparr>template_signal_cursor = 5 * (0 + n), complement_signal_cursor = 5 * (0 + n),
              target_cursor = int (0 + n), query_cursor = int (0 + n),
              stereo_global_cursor = 5 * (0 + n)\<rparr>"
    using n by (intro encode_columns_regular [OF refl]) simp_all
  show ?thesis
    using walk n(1) expand_regular_moves [of L] reverse_regular_moves [of L]
      template_signal_start_regular [OF L]
      complement_signal_start_regular [OF L, of "concat (replicate L [1, 0, 0, 0, 0])"]
    by (simp add: encode_signal_def size0_def reads ops Let_def)
qed



lemma example_node_eq:
  "example_node =
     \<lparr>m_template_complement_map = [''A'' \<mapsto> ''B''],
      m_complement_template_map = [''B'' \<mapsto> ''A''],
      read_cache = Map.empty, m_num_worker_threads = 4, m_sink_terminate_calls = 0\<rparr>"
  by (simp add: example_node_def StereoDuplexEncoderNode_def)

lemma first_read_cached:
  "Read_read_id template_read = ''A'' \<Longrightarrow>
   stereo_worker_step ext (ReadMessage template_read) example_node =
     Inr (example_node\<lparr>read_cache := [''A'' \<mapsto> template_read]\<rparr>, [])"
  by (simp add: example_node_eq stereo_worker_step_def)

lemma second_read_matched:
  "Read_read_id complement_read = ''B'' \<Longrightarrow>
   matched_pair (example_node\<lparr>read_cache := [''A'' \<mapsto> template_read]\<rparr>) complement_read =
     Some (''A'', template_read, complement_read)"
  by (simp add: example_node_eq matched_pair_def)

lemma cache_empty: "example_node\<lparr>read_cache := \<lambda>x. None\<rparr> = example_node"
  by (simp add: example_node_eq)

lemma example_read_id [simp]:
  "Read_read_id (example_read i) = i" "Read_read_id (read_of_length i base n) = i"
  by (simp_all add: example_read_def read_of_length_def)

lemma example_read_sizes:
  "length (seq (example_read i)) = 300" "length (qstring (example_read i)) = 300"
  "moves (example_read i) = replicate 300 1" "raw_data (example_read i) = Tensor [5 * 300]"
  "length (seq (read_of_length i base n)) = n" "length (qstring (read_of_length i base n)) = n"
  "moves (read_of_length i base n) = replicate 300 1"
  "raw_data (read_of_length i base n) = Tensor [5 * 300]"
  by (simp_all add: example_read_def read_of_length_def length_concat_replicate)

lemma example_externals_simps:
  "rnd (example_externals columns) = (\<lambda>x. x)"
  "rnd (binary32_externals columns) = binary32_round"
  "alignment (example_externals columns) template_seq complement_seq =
     replicate (length template_seq) 0"
  "alignment (binary32_externals columns) template_seq complement_seq =
     replicate (length template_seq) 0"
  "length (reverse_complement (example_externals columns) complement_seq) =
     length complement_seq"
  "length (reverse_complement (binary32_externals columns) complement_seq) =
     length complement_seq"
  "trimmed_alignment (example_externals columns) template_seq complement_seq =
     ((0, columns), (0, 0))"
  "trimmed_alignment (binary32_externals columns) template_seq complement_seq =
     ((0, columns), (0, 0))"
  by (simp_all add: example_externals_def binary32_externals_def kAlignMatch_def)

lemma example_walk:
  "encode_signal (example_externals 250) (example_read ''A'') (example_read ''B'')
     ((0, 250), (0, 0)) = Inr 1250"
  using encode_signal_regular [of "example_read ''A''" 300 "example_read ''B''"
          "example_externals 250" 300 250]
  by (simp add: example_read_sizes example_externals_simps)

lemma example_encode:
  "stereo_encode (example_externals 250) (example_read ''A'') (example_read ''B'') = Inr merged_AB"
  using stereo_encode_walk [of "example_externals 250" "example_read ''A''" "example_read ''B''"
          0 250 "(0, 0)"] equal_lengths_pass [of "\<lambda>x. x" 300]
  by (simp add: example_read_sizes example_externals_simps example_walk merged_AB_def
        kNumFeatures_def)



text \<open>A span of 150 columns: the pair is dropped and the run goes on without an error.\<close>

theorem short_span_dropped_silently_witness:
  "stereo_run (example_externals 150)
     [ReadMessage (example_read ''A''), ReadMessage (example_read ''B'')] example_node =
   Inr (example_node, [])"
proof -
  have m: "matched_pair (example_node\<lparr>read_cache := [''A'' \<mapsto> example_read ''A'']\<rparr>)
             (example_read ''B'') = Some (''A'', example_read ''A'', example_read ''B'')"
    by (rule second_read_matched) simp
  have 2: "stereo_worker_step (example_externals 150) (ReadMessage (example_read ''B''))
             (example_node\<lparr>read_cache := [''A'' \<mapsto> example_read ''A'']\<rparr>) =
           Inr (example_node, [])"
    using short_span_dropped_silently [OF m, of "example_externals 150" 0 150 "(0, 0)"]
    by (simp add: example_externals_simps cache_empty)
  have 1: "stereo_worker_step (example_externals 150) (ReadMessage (example_read ''A''))
             example_node =
           Inr (example_node\<lparr>read_cache := [''A'' \<mapsto> example_read ''A'']\<rparr>, [])"
    by (rule first_read_cached) simp
  show ?thesis using 1 2 by simp
qed

text \<open>
  Claim C5, as amended. The cache is a map, so it holds at most one entry for a read id.
  When the partner of an incoming read is in the cache, the step that finds it removes it,
  changes nothing else in the cache and pushes at most one record; if the same read is
  delivered again right after, its partner is gone, the read is only put in the cache and
  nothing is pushed. The cache keeps no trace of a matched pair, so both reads of a pair
  delivered again are matched and encoded again (see the counterexample).
\<close>

theorem partner_removed_on_match:
  assumes "matched_pair st read = Some (partner_id, template_read, complement_read)"
    and "stereo_worker_step ext (ReadMessage read) st = Inr (st', out)"
  shows "read_cache st' = (read_cache st)(partner_id := None) \<and>
         length out \<le> 1 \<and>
         stereo_worker_step ext (ReadMessage read) st' =
           Inr (st'\<lparr>read_cache := (read_cache st')(Read_read_id read \<mapsto> read)\<rparr>, [])"
proof -
  have st': "st' = st\<lparr>read_cache := (read_cache st)(partner_id := None)\<rparr>" and "length out \<le> 1"
    using assms worker_on_matched_pair [OF assms(1), of ext]
    by (auto split: sum.splits if_splits)
  moreover have "stereo_worker_step ext (ReadMessage read) st' =
           Inr (st'\<lparr>read_cache := (read_cache st')(Read_read_id read \<mapsto> read)\<rparr>, [])"
    using assms(1) unfolding st'
    by (auto simp: matched_pair_def stereo_worker_step_def Let_def split: option.splits)
  ultimately show ?thesis by simp
qed

lemma example_matched:
  "matched_pair (example_node\<lparr>read_cache := [''A'' \<mapsto> example_read ''A'']\<rparr>)
     (example_read ''B'') = Some (''A'', example_read ''A'', example_read ''B'')"
  by (rule second_read_matched) simp

lemma stereo_run_append:
  "stereo_run ext xs st = Inr (st1, out1) \<Longrightarrow>
   stereo_run ext (xs @ ys) st =
     (case stereo_run ext ys st1 of
        Inl e \<Rightarrow> Inl e
      | Inr (st2, out2) \<Rightarrow> Inr (st2, out1 @ out2))"
  by (induction xs arbitrary: st st1 out1) (auto split: sum.splits prod.splits)

lemma example_pair_run:
  "stereo_run (example_externals 250)
     [ReadMessage (example_read ''A''), ReadMessage (example_read ''B'')] example_node =
   Inr (example_node, [merged_AB])"
proof -
  have 1: "stereo_worker_step (example_externals 250) (ReadMessage (example_read ''A''))
             example_node =
           Inr (example_node\<lparr>read_cache := [''A'' \<mapsto> example_read ''A'']\<rparr>, [])"
    by (rule first_read_cached) simp
  have 2: "stereo_worker_step (example_externals 250) (ReadMessage (example_read ''B''))
             (example_node\<lparr>read_cache := [''A'' \<mapsto> example_read ''A'']\<rparr>) =
           Inr (example_node, [merged_AB])"
    using worker_on_matched_pair [OF example_matched, of "example_externals 250"]
    by (simp add: example_encode merged_AB_def ndimension_def cache_empty)
  show ?thesis using 1 2 by simp
qed

text \<open>
  Claim C5 as stated fails: template A and complement B delivered twice, in the order A,
  B, A, B, give two merged records.
\<close>

theorem pair_delivered_twice_counterexample:
  "stereo_run (example_externals 250)
     ([ReadMessage (example_read ''A''), ReadMessage (example_read ''B'')] @
      [ReadMessage (example_read ''A''), ReadMessage (example_read ''B'')]) example_node =
   Inr (example_node, [merged_AB] @ [merged_AB])"
  using stereo_run_append [OF example_pair_run,
          of "[ReadMessage (example_read ''A''), ReadMessage (example_read ''B'')]"]
        example_pair_run
  by simp

text \<open>
  The match of B with the cached A empties the cache; B delivered again is cached and
  nothing is pushed.
\<close>

theorem partner_removed_on_match_witness:
  "read_cache example_node = [''A'' \<mapsto> example_read ''A''](''A'' := None) \<and>
   length [merged_AB] \<le> 1 \<and>
   stereo_worker_step (example_externals 250) (ReadMessage (example_read ''B'')) example_node =
     Inr (example_node\<lparr>read_cache := (read_cache example_node)(''B'' \<mapsto> example_read ''B'')\<rparr>, [])"
proof -
  have 2: "stereo_worker_step (example_externals 250) (ReadMessage (example_read ''B''))
             (example_node\<lparr>read_cache := [''A'' \<mapsto> example_read ''A'']\<rparr>) =
           Inr (example_node, [merged_AB])"
    using worker_on_matched_pair [OF example_matched, of "example_externals 250"]
    by (simp add: example_encode merged_AB_def ndimension_def cache_empty)
  show ?thesis
    using partner_removed_on_match [OF example_matched 2]
    by (simp add: example_node_eq)
qed

text \<open>
  The rounding of binary32: it is nearest among the multiples of the spacing, exact on the
  integers below \<open>2 ^ 24\<close>, and so a rounding to a nearest \<^verbatim>\<open>float\<close>; and its values at
  the numbers of the example below.
\<close>

lemma ulp_index_eq:
  "k \<le> n \<Longrightarrow> (0 < k \<Longrightarrow> 2 ^ 23 * (2 ^ k / 2 ^ 149) \<le> \<bar>x\<bar>) \<Longrightarrow>
   \<bar>x\<bar> < 2 ^ 23 * (2 ^ Suc k / 2 ^ 149) \<Longrightarrow> ulp_index n x = k"
proof (induction n)
  case 0
  then show ?case by simp
next
  case (Suc n)
  show ?case
  proof (cases "k = Suc n")
    case True
    then show ?thesis using Suc.prems by simp
  next
    case False
    then have kn: "k \<le> n" using Suc.prems(1) by simp
    have "(2::rat) ^ Suc k \<le> 2 ^ Suc n"
      using kn by (intro power_increasing) simp_all
    then have "2 ^ 23 * ((2::rat) ^ Suc k / 2 ^ 149) \<le> 2 ^ 23 * (2 ^ Suc n / 2 ^ 149)"
      by (simp add: divide_right_mono)
    then have "\<not> 2 ^ 23 * (2 ^ Suc n / 2 ^ 149) \<le> \<bar>x\<bar>"
      using Suc.prems(3) by linarith
    then show ?thesis using Suc.IH [OF kn Suc.prems(2,3)] by simp
  qed
qed

lemma ulp_index_le: "ulp_index n x \<le> n"
  by (induction n) auto

lemma ulp_index_lower:
  "0 < ulp_index n x \<Longrightarrow> 2 ^ 23 * (2 ^ ulp_index n x / 2 ^ 149) \<le> \<bar>x\<bar>"
  by (induction n) (auto split: if_splits)

lemma round_half_even_nearest: "\<bar>of_int (round_half_even q) - q\<bar> \<le> \<bar>of_int m - q\<bar>"
proof -
  define F :: rat where "F = of_int \<lfloor>q\<rfloor>"
  define R :: rat where "R = of_int (round_half_even q)"
  define M :: rat where "M = of_int m"
  have f: "F \<le> q" "q < F + 1" unfolding F_def by linarith+
  have m: "M \<le> F \<or> F + 1 \<le> M"
  proof (cases "m \<le> \<lfloor>q\<rfloor>")
    case True
    then show ?thesis unfolding M_def F_def by simp
  next
    case False
    then have "\<lfloor>q\<rfloor> + 1 \<le> m" by simp
    then have "(of_int (\<lfloor>q\<rfloor> + 1) :: rat) \<le> of_int m" by (simp only: of_int_le_iff)
    then show ?thesis unfolding M_def F_def by simp
  qed
  have r: "(q - F < 1 / 2 \<and> R = F) \<or> (1 / 2 < q - F \<and> R = F + 1) \<or>
           (q - F = 1 / 2 \<and> (R = F \<or> R = F + 1))"
    unfolding R_def F_def round_half_even_def Let_def by auto
  have "\<bar>R - q\<bar> \<le> \<bar>M - q\<bar>"
    using f m r by (elim disjE conjE; linarith)
  then show ?thesis unfolding R_def M_def .
qed

lemma round_half_even_of_int [simp]: "round_half_even (of_int m) = m"
  by (simp add: round_half_even_def)

lemma round_half_even_close: "\<bar>of_int (round_half_even q) - q\<bar> \<le> 1 / 2"
proof -
  define F :: rat where "F = of_int \<lfloor>q\<rfloor>"
  define R :: rat where "R = of_int (round_half_even q)"
  have a: "\<bar>R - q\<bar> \<le> \<bar>F - q\<bar>"
    unfolding R_def F_def by (rule round_half_even_nearest)
  have "\<bar>R - q\<bar> \<le> \<bar>of_int (\<lfloor>q\<rfloor> + 1) - q\<bar>"
    unfolding R_def by (rule round_half_even_nearest)
  then have b: "\<bar>R - q\<bar> \<le> \<bar>F + 1 - q\<bar>"
    unfolding F_def by simp
  have "F \<le> q" "q < F + 1" unfolding F_def by linarith+
  then have "\<bar>R - q\<bar> \<le> 1 / 2" using a b by linarith
  then show ?thesis unfolding R_def .
qed

lemma round_half_even_down:
  "of_int f \<le> q \<Longrightarrow> q - of_int f < 1 / 2 \<Longrightarrow> round_half_even q = f"
proof -
  assume a: "of_int f \<le> q" "q - of_int f < 1 / 2"
  then have "\<lfloor>q\<rfloor> = f" by (intro floor_unique) linarith+
  then show ?thesis using a by (simp add: round_half_even_def)
qed

lemma round_half_even_up:
  "q < of_int f + 1 \<Longrightarrow> 1 / 2 < q - of_int f \<Longrightarrow> round_half_even q = f + 1"
proof -
  assume a: "q < of_int f + 1" "1 / 2 < q - of_int f"
  then have "\<lfloor>q\<rfloor> = f" by (intro floor_unique) linarith+
  then show ?thesis using a by (simp add: round_half_even_def)
qed

lemma round_half_even_tie:
  "q = of_int f + 1 / 2 \<Longrightarrow> round_half_even q = (if even f then f else f + 1)"
proof -
  assume a: "q = of_int f + 1 / 2"
  then have "\<lfloor>q\<rfloor> = f" by (intro floor_unique) linarith+
  then show ?thesis using a by (simp add: round_half_even_def)
qed

lemma power_two_split: "k \<le> N \<Longrightarrow> (2::rat) ^ N = 2 ^ k * 2 ^ (N - k)"
  by (metis le_add_diff_inverse power_add)

lemma ulp_as_fraction: "k \<le> N \<Longrightarrow> (2::rat) ^ k / 2 ^ N = 1 / 2 ^ (N - k)"
  by (simp add: power_two_split [of k N])

lemma multiple_of_ulp:
  "k \<le> M \<Longrightarrow> of_int (c * 2 ^ (M - k)) * ((2::rat) ^ k / 2 ^ (M + j)) = of_int c / 2 ^ j"
  by (simp add: power_add power_two_split [of k M])

lemma binary32_ulp_pos: "0 < binary32_ulp x"
  by (simp add: binary32_ulp_def)

lemma binary32_round_multiple:
  "\<bar>binary32_round x - x\<bar> \<le> \<bar>of_int m * binary32_ulp x - x\<bar>"
proof -
  let ?u = "binary32_ulp x"
  have u: "0 < ?u" by (rule binary32_ulp_pos)
  have "\<bar>of_int (round_half_even (x / ?u)) - x / ?u\<bar> \<le> \<bar>of_int m - x / ?u\<bar>"
    by (rule round_half_even_nearest)
  then have "\<bar>of_int (round_half_even (x / ?u)) - x / ?u\<bar> * ?u \<le> \<bar>of_int m - x / ?u\<bar> * ?u"
    using u by (simp add: mult_right_mono)
  moreover have "\<bar>a - x / ?u\<bar> * ?u = \<bar>a * ?u - x\<bar>" for a
  proof -
    have "\<bar>a - x / ?u\<bar> * ?u = \<bar>(a - x / ?u) * ?u\<bar>"
      using u by (simp add: abs_mult)
    also have "(a - x / ?u) * ?u = a * ?u - x"
      using u by (simp add: field_simps)
    finally show ?thesis .
  qed
  ultimately show ?thesis by (simp add: binary32_round_def)
qed

lemma binary32_round_close: "\<bar>binary32_round x - x\<bar> \<le> binary32_ulp x / 2"
proof -
  let ?u = "binary32_ulp x"
  have u: "0 < ?u" by (rule binary32_ulp_pos)
  have "\<bar>of_int (round_half_even (x / ?u)) - x / ?u\<bar> * ?u \<le> 1 / 2 * ?u"
    using round_half_even_close [of "x / ?u"] u by (simp only: mult_right_mono less_imp_le)
  moreover have "\<bar>of_int (round_half_even (x / ?u)) - x / ?u\<bar> * ?u =
                 \<bar>of_int (round_half_even (x / ?u)) * ?u - x\<bar>"
  proof -
    have "\<bar>of_int (round_half_even (x / ?u)) - x / ?u\<bar> * ?u =
          \<bar>(of_int (round_half_even (x / ?u)) - x / ?u) * ?u\<bar>"
      using u by (simp add: abs_mult)
    also have "(of_int (round_half_even (x / ?u)) - x / ?u) * ?u =
               of_int (round_half_even (x / ?u)) * ?u - x"
      using u by (simp add: field_simps)
    finally show ?thesis .
  qed
  ultimately show ?thesis by (simp add: binary32_round_def)
qed

lemma binary32_round_exact:
  assumes "n < 2 ^ 24"
  shows "binary32_round (of_nat n) = of_nat n"
proof -
  define k where "k = ulp_index 253 (of_nat n :: rat)"
  have k: "k \<le> 149"
  proof (rule ccontr)
    assume "\<not> k \<le> 149"
    then have big: "150 \<le> k" by simp
    then have "0 < k" by simp
    then have low: "2 ^ 23 * (2 ^ k / 2 ^ 149) \<le> \<bar>of_nat n :: rat\<bar>"
      unfolding k_def by (rule ulp_index_lower)
    have "(2::rat) ^ 150 \<le> 2 ^ k"
      using big by (intro power_increasing) simp_all
    then have "(2::rat) ^ 24 \<le> 2 ^ 23 * (2 ^ k / 2 ^ 149)"
      by (simp add: field_simps)
    then have "(2::rat) ^ 24 \<le> of_nat n" using low by simp
    then have "(of_nat (2 ^ 24) :: rat) \<le> of_nat n" by simp
    then have "2 ^ 24 \<le> n" by (simp only: of_nat_le_iff)
    then show False using assms by simp
  qed
  have u: "binary32_ulp (of_nat n) = 1 / 2 ^ (149 - k)"
    unfolding binary32_ulp_def k_def [symmetric] using k by (rule ulp_as_fraction)
  have "of_nat n / binary32_ulp (of_nat n) = (of_int (int n * 2 ^ (149 - k)) :: rat)"
    by (simp add: u)
  then have "round_half_even (of_nat n / binary32_ulp (of_nat n)) = int n * 2 ^ (149 - k)"
    by (simp only: round_half_even_of_int)
  then show ?thesis
    by (simp add: binary32_round_def u)
qed

lemma binary32_round_near:
  "\<bar>binary32_round x - x\<bar> \<le> \<bar>13421774 / 2 ^ 28 - x\<bar>"
proof -
  define k where "k = ulp_index 253 x"
  have u: "binary32_ulp x = 2 ^ k / 2 ^ 149"
    by (simp add: binary32_ulp_def k_def)
  show ?thesis
  proof (cases "k \<le> 122")
    case True
    have "of_int (6710887 * 2 ^ (122 - k)) * ((2::rat) ^ k / 2 ^ (122 + 27)) =
            of_int 6710887 / 2 ^ 27"
      using True by (rule multiple_of_ulp)
    then have "of_int (6710887 * 2 ^ (122 - k)) * binary32_ulp x = (13421774 / 2 ^ 28 :: rat)"
      unfolding u by simp
    then show ?thesis
      using binary32_round_multiple [of x "6710887 * 2 ^ (122 - k)"] by (simp only:)
  next
    case False
    then have big: "123 \<le> k" by simp
    then have "0 < k" by simp
    then have low: "2 ^ 23 * binary32_ulp x \<le> \<bar>x\<bar>"
      unfolding u k_def by (rule ulp_index_lower)
    have "(2::rat) ^ 123 \<le> 2 ^ k"
      using big by (intro power_increasing) simp_all
    then have "(1 / 2 ^ 26 :: rat) \<le> binary32_ulp x"
      by (simp add: u field_simps)
    then have x8: "1 / 8 \<le> \<bar>x\<bar>" using low by simp
    have "binary32_ulp x / 2 \<le> \<bar>x\<bar> - 13421774 / 2 ^ 28"
      using low x8 by simp
    moreover have "\<bar>x\<bar> - g \<le> \<bar>g - x\<bar>" if "0 \<le> g" for g :: rat
      using that by linarith
    from this [of "13421774 / 2 ^ 28"]
    have "\<bar>x\<bar> - 13421774 / 2 ^ 28 \<le> \<bar>13421774 / 2 ^ 28 - x\<bar>" by simp
    ultimately show ?thesis
      using binary32_round_close [of x] by (meson order_trans)
  qed
qed

lemma binary32_rounds_to_nearest_float: "rounds_to_nearest_float binary32_round"
  unfolding rounds_to_nearest_float_def
  using binary32_round_exact binary32_round_near by blast

lemma binary32_round_eval:
  assumes "k \<le> 253" "0 < k \<Longrightarrow> 2 ^ 23 * (2 ^ k / 2 ^ 149) \<le> \<bar>x\<bar>"
    "\<bar>x\<bar> < 2 ^ 23 * (2 ^ Suc k / 2 ^ 149)"
  shows "binary32_round x = of_int (round_half_even (x / (2 ^ k / 2 ^ 149))) * (2 ^ k / 2 ^ 149)"
  using ulp_index_eq [OF assms] by (simp add: binary32_round_def binary32_ulp_def)

lemma binary32_round_20000001: "binary32_round 20000001 = 20000000"
proof -
  have "round_half_even (20000001 / (2 ^ 150 / 2 ^ 149)) = 10000000"
    using round_half_even_tie [of "20000001 / (2 ^ 150 / 2 ^ 149)" 10000000] by simp
  then show ?thesis
    by (subst binary32_round_eval [of 150]) simp_all
qed

lemma binary32_round_19000000: "binary32_round 19000000 = 19000000"
proof -
  have "round_half_even (19000000 / (2 ^ 150 / 2 ^ 149)) = 9500000"
    using round_half_even_down [of 9500000 "19000000 / (2 ^ 150 / 2 ^ 149)"] by simp
  then show ?thesis
    by (subst binary32_round_eval [of 150]) simp_all
qed

lemma binary32_round_1000000: "binary32_round 1000000 = 1000000"
  using binary32_round_exact [of 1000000] by simp

lemma binary32_round_twentieth: "binary32_round (1 / 20) = float_0_05"
proof -
  have "round_half_even (1 / 20 / (2 ^ 121 / 2 ^ 149)) = 13421772 + 1"
    by (rule round_half_even_up) simp_all
  then show ?thesis
    by (subst binary32_round_eval [of 121]) (simp_all add: float_0_05_def)
qed

text \<open>
  The length test on lengths below \<open>2 ^ 24\<close>: both lengths and their difference are
  \<^verbatim>\<open>float\<close>s, so only the quotient is rounded. An exact ratio above \<open>1/20\<close> is at least
  \<open>(a + 1) / (20 * a)\<close> for the greater length \<open>a\<close>, which for \<open>a < 2 ^ 24\<close> lies above the
  midpoint of \<^verbatim>\<open>0.05f\<close> and the next \<^verbatim>\<open>float\<close>; so the rounded quotient is above
  \<^verbatim>\<open>0.05f\<close>.
\<close>

lemma ratio_test_rejects:
  assumes r: "rounds_to_nearest_float r"
    and lt: "lt < 2 ^ 24" and lc: "lc < 2 ^ 24"
    and ratio: "1 / 20 < length_difference_ratio lt lc"
  shows "length_ratio_too_large r lt lc"
proof -
  define a where "a = max lt lc"
  define d where "d = max lt lc - min lt lc"
  define x :: rat where "x = of_nat d / of_nat a"
  have exact: "r (of_nat n) = of_nat n" if "n < 2 ^ 24" for n
    using r that by (simp add: rounds_to_nearest_float_def)
  have near: "\<bar>r x - x\<bar> \<le> \<bar>13421774 / 2 ^ 28 - x\<bar>"
    using r by (simp add: rounds_to_nearest_float_def)
  have a24: "a < 2 ^ 24" and d24: "d < 2 ^ 24"
    using lt lc by (simp_all add: a_def d_def)
  have mx: "max (of_nat lt :: rat) (of_nat lc) = of_nat a"
    by (simp add: a_def max_def)
  have diff: "(of_nat a :: rat) - min (of_nat lt) (of_nat lc) = of_nat d"
    by (simp add: a_def d_def max_def min_def of_nat_diff)
  have "\<bar>of_nat lt - of_nat lc :: rat\<bar> = of_nat d"
    by (cases "lt \<le> lc") (simp_all add: d_def max_def min_def of_nat_diff)
  then have x_ratio: "1 / 20 < x"
    using ratio by (simp add: length_difference_ratio_def x_def a_def)
  have apos: "0 < a"
  proof (rule ccontr)
    assume "\<not> 0 < a"
    then have "x = 0" by (simp add: x_def)
    then show False using x_ratio by simp
  qed
  then have "(of_nat a :: rat) < 20 * of_nat d"
    using x_ratio by (simp add: x_def field_simps)
  then have "(of_nat a :: rat) < of_nat (20 * d)" by simp
  then have "a < 20 * d" by (simp only: of_nat_less_iff)
  then have "a + 1 \<le> 20 * d" by simp
  then have "(of_nat (a + 1) :: rat) \<le> of_nat (20 * d)" by (simp only: of_nat_le_iff)
  then have step: "(of_nat a :: rat) + 1 \<le> 20 * of_nat d" by simp
  have A: "(0::rat) < of_nat a" "(of_nat a :: rat) < 16777216"
  proof -
    show "(0::rat) < of_nat a" using apos by simp
    have "(of_nat a :: rat) < of_nat (2 ^ 24)" using a24 by (simp only: of_nat_less_iff)
    then show "(of_nat a :: rat) < 16777216" by simp
  qed
  have "28 * (of_nat a :: rat) < 536870912"
    using A by linarith
  then have "26843547 * (of_nat a :: rat) < 536870912 * of_nat d"
    using step by linarith
  then have mid: "26843547 / 536870912 < x"
    using A(1) by (simp add: x_def field_simps)
  have "float_0_05 < r x"
    using near mid by (simp add: float_0_05_def)
  then show ?thesis
    using exact [OF lt] exact [OF lc] exact [OF d24] apos
    by (simp add: length_ratio_too_large_def Let_def mx diff x_def)
qed

text \<open>
  Claim C7, as amended. A read arrives whose partner is cached; the rounding of the
  \<^verbatim>\<open>float\<close> operations of lines 28 to 32 is a rounding to a nearest \<^verbatim>\<open>float\<close>; both
  sequences are shorter than \<open>2 ^ 24\<close> bases; and the exact ratio of the difference of
  the lengths to the greater length is above \<open>1/20\<close>. Then the length test of the program
  rejects the pair, \<open>stereo_encode\<close> returns the default read at line 33, before the
  alignment, and the worker removes the partner from the cache and pushes nothing to the
  sink.
\<close>

theorem length_ratio_above_twentieth_dropped:
  assumes "matched_pair st read = Some (partner_id, template_read, complement_read)"
    and "rounds_to_nearest_float (rnd ext)"
    and "length (seq template_read) < 2 ^ 24"
    and "length (seq complement_read) < 2 ^ 24"
    and "1 / 20 < length_difference_ratio (length (seq template_read))
                    (length (seq complement_read))"
  shows "length_ratio_too_large (rnd ext) (length (seq template_read))
           (length (seq complement_read)) \<and>
         stereo_encode ext template_read complement_read = Inr default_Read \<and>
         stereo_worker_step ext (ReadMessage read) st =
           Inr (st\<lparr>read_cache := (read_cache st)(partner_id := None)\<rparr>, [])"
proof -
  have rejected: "length_ratio_too_large (rnd ext) (length (seq template_read))
           (length (seq complement_read))"
    using assms(2-5) by (rule ratio_test_rejects)
  then have "stereo_encode ext template_read complement_read = Inr default_Read"
    by (rule stereo_encode_rejected)
  then show ?thesis
    using rejected worker_on_matched_pair [OF assms(1), of ext]
    by (simp add: ndimension_default)
qed

lemma long_reads_pass:
  "\<not> length_ratio_too_large binary32_round 20000001 19000000"
  by (simp add: length_ratio_too_large_def Let_def binary32_round_20000001
        binary32_round_19000000 binary32_round_1000000 binary32_round_twentieth)

text \<open>
  Claim C7 as stated fails for long reads. A template of 20000001 bases and a complement
  of 19000000 bases have a ratio of 1000001/20000001, which is above 0.05. In binary32
  the length 20000001 becomes 20000000, the difference 1000000 and the quotient 0.05,
  which rounds to \<^verbatim>\<open>0.05f\<close> and is not greater than \<^verbatim>\<open>0.05f\<close>: the pair passes the test,
  and with a trimmed span of 250 columns its merged record is emitted.
\<close>

theorem length_ratio_above_twentieth_kept_counterexample:
  "1 / 20 < length_difference_ratio 20000001 19000000 \<and>
   \<not> length_ratio_too_large binary32_round 20000001 19000000 \<and>
   stereo_run (binary32_externals 250)
     [ReadMessage (read_of_length ''A'' (CHR ''A'') 20000001),
      ReadMessage (read_of_length ''B'' (CHR ''T'') 19000000)] example_node =
   Inr (example_node, [merged_AB])"
proof -
  let ?A = "read_of_length ''A'' (CHR ''A'') 20000001"
  let ?B = "read_of_length ''B'' (CHR ''T'') 19000000"
  have walk: "encode_signal (binary32_externals 250) ?A ?B ((0, 250), (0, 0)) = Inr 1250"
    using encode_signal_regular [of ?A 300 ?B "binary32_externals 250" 20000001 250]
    by (simp add: example_read_sizes example_externals_simps)
  have "stereo_encode (binary32_externals 250) ?A ?B = Inr merged_AB"
    using stereo_encode_walk [of "binary32_externals 250" ?A ?B 0 250 "(0, 0)"]
      long_reads_pass walk
    by (simp add: example_read_sizes example_externals_simps merged_AB_def kNumFeatures_def)
  moreover have "matched_pair (example_node\<lparr>read_cache := [''A'' \<mapsto> ?A]\<rparr>) ?B =
      Some (''A'', ?A, ?B)"
    by (rule second_read_matched) simp
  ultimately have 2: "stereo_worker_step (binary32_externals 250) (ReadMessage ?B)
             (example_node\<lparr>read_cache := [''A'' \<mapsto> ?A]\<rparr>) =
           Inr (example_node, [merged_AB])"
    using worker_on_matched_pair [of _ _ _ _ _ "binary32_externals 250"]
    by (simp add: merged_AB_def ndimension_def cache_empty)
  have 1: "stereo_worker_step (binary32_externals 250) (ReadMessage ?A) example_node =
           Inr (example_node\<lparr>read_cache := [''A'' \<mapsto> ?A]\<rparr>, [])"
    by (rule first_read_cached) simp
  have run: "stereo_run (binary32_externals 250) [ReadMessage ?A, ReadMessage ?B] example_node =
           Inr (example_node, [merged_AB])"
    using 1 2 by simp
  have "1 / 20 < length_difference_ratio 20000001 19000000"
    by (simp add: length_difference_ratio_def)
  then show ?thesis using long_reads_pass run by simp
qed

text \<open>
  A template of 300 bases and a complement of 280 bases, with the rounding of binary32:
  the ratio is 1/15, and the pair is dropped.
\<close>

theorem length_ratio_above_twentieth_dropped_witness:
  "length_ratio_too_large binary32_round 300 280 \<and>
   stereo_encode (binary32_externals 250) (example_read ''A'')
     (read_of_length ''B'' (CHR ''T'') 280) = Inr default_Read \<and>
   stereo_worker_step (binary32_externals 250)
     (ReadMessage (read_of_length ''B'' (CHR ''T'') 280))
     (example_node\<lparr>read_cache := [''A'' \<mapsto> example_read ''A'']\<rparr>) =
   Inr (example_node, [])"
proof -
  let ?B = "read_of_length ''B'' (CHR ''T'') 280"
  have m: "matched_pair (example_node\<lparr>read_cache := [''A'' \<mapsto> example_read ''A'']\<rparr>) ?B =
      Some (''A'', example_read ''A'', ?B)"
    by (rule second_read_matched) simp
  have r: "rounds_to_nearest_float (rnd (binary32_externals 250))"
    by (simp add: example_externals_simps binary32_rounds_to_nearest_float)
  have lt: "length (seq (example_read ''A'')) < 2 ^ 24" and lc: "length (seq ?B) < 2 ^ 24"
    by (simp_all add: example_read_sizes)
  have ratio: "1 / 20 < length_difference_ratio (length (seq (example_read ''A'')))
                          (length (seq ?B))"
    by (simp add: example_read_sizes length_difference_ratio_def)
  show ?thesis
    using length_ratio_above_twentieth_dropped [OF m r lt lc ratio]
    by (simp add: example_read_sizes example_externals_simps cache_empty)
qed

lemma exits_before_last:
  "k < W \<Longrightarrow>
   m_num_worker_threads ((worker_thread_exit ^^ k) (StereoDuplexEncoderNode pairs W)) = int W - int k \<and>
   m_sink_terminate_calls ((worker_thread_exit ^^ k) (StereoDuplexEncoderNode pairs W)) = 0"
proof (induction k)
  case 0
  then show ?case by (simp add: StereoDuplexEncoderNode_def)
next
  case (Suc k)
  then show ?case by (simp add: worker_thread_exit_def Let_def)
qed

text \<open>
  Claim C3, as amended. For a node with \<open>W > 0\<close> workers: as long as fewer than \<open>W\<close>
  workers have left, the sink has received no \<^verbatim>\<open>terminate()\<close>; the worker that brings
  the count to zero calls it, once; and the destructor calls it again, so that over the
  life of the node the sink receives two calls. What a second call does to the sink's
  queue is decided by \<^verbatim>\<open>MessageSink::terminate\<close>, outside the modelled sources.
\<close>

theorem sink_terminated_by_last_worker_and_by_destructor:
  assumes "0 < W"
  shows "(\<forall>k<W. m_sink_terminate_calls
                 ((worker_thread_exit ^^ k) (StereoDuplexEncoderNode pairs W)) = 0) \<and>
         m_num_worker_threads ((worker_thread_exit ^^ W) (StereoDuplexEncoderNode pairs W)) = 0 \<and>
         m_sink_terminate_calls
           ((worker_thread_exit ^^ W) (StereoDuplexEncoderNode pairs W)) = 1 \<and>
         m_sink_terminate_calls (node_lifetime pairs W) = 2"
proof -
  obtain k where W: "W = Suc k" using assms by (cases W) auto
  have "k < W" using W by simp
  from exits_before_last [OF this, of pairs]
  have last: "m_num_worker_threads ((worker_thread_exit ^^ W) (StereoDuplexEncoderNode pairs W)) = 0 \<and>
     m_sink_terminate_calls ((worker_thread_exit ^^ W) (StereoDuplexEncoderNode pairs W)) = 1"
    unfolding W by (simp add: worker_thread_exit_def Let_def)
  then show ?thesis
    using exits_before_last [of _ W pairs]
    by (simp add: node_lifetime_def destructor_def)
qed

text \<open>
  Claim C3 as stated fails: with four workers the sink is terminated twice, not once.
\<close>

theorem sink_terminated_twice_counterexample:
  "m_sink_terminate_calls (node_lifetime [(''A'', ''B'')] 4) = 2"
  by (simp add: node_lifetime_def destructor_def worker_thread_exit_def Let_def
        StereoDuplexEncoderNode_def eval_nat_numeral)

theorem sink_terminated_by_last_worker_and_by_destructor_witness:
  "m_sink_terminate_calls ((worker_thread_exit ^^ 3) (StereoDuplexEncoderNode [(''A'', ''B'')] 4)) = 0 \<and>
   m_sink_terminate_calls ((worker_thread_exit ^^ 4) (StereoDuplexEncoderNode [(''A'', ''B'')] 4)) = 1 \<and>
   m_sink_terminate_calls (node_lifetime [(''A'', ''B'')] 4) = 2"
  using sink_terminated_by_last_worker_and_by_destructor [of 4 "[(''A'', ''B'')]"]
  by simp

text \<open>
  Claim C6, as amended. A message that is not a read makes the worker of the encoder fail
  with \<^verbatim>\<open>std::bad_variant_access\<close>, and nothing after it is processed by that worker. The
  worker of the subread tagger logs a warning for such a message, leaves its state as it
  is, sends nothing and goes on with the next message.
\<close>

theorem non_read_message_fails_encoder_and_is_skipped_by_tagger:
  "stereo_worker_step ext (NonReadMessage i) st = Inl bad_variant_access \<and>
   stereo_run ext (NonReadMessage i # rest) st = Inl bad_variant_access \<and>
   worker_thread_step (OtherMessage j) tst = Inr (tst, []) \<and>
   tagger_run (Deliver (OtherMessage j) # evs) tst = tagger_run evs tst"
  by (auto simp: stereo_worker_step_def worker_thread_step_def split: sum.splits)

text \<open>
  Claim C6 as stated fails for the subread tagger: after a message that is not a read, the
  next fragment is processed and emitted as usual.
\<close>

theorem tagger_continues_after_non_read_counterexample:
  "tagger_run
     [Deliver (OtherMessage 2), Deliver (SimplexReadPtr (fragment ''a'' 7 1 0 0))] tagger_init =
   Inr (tagger_init, [SimplexReadPtr (fragment ''a'' 7 1 0 0)])"
  by (simp add: worker_thread_step_def fragment_def tagger_init_def at_or_empty_def
        read_common.truncate_def num_expected_duplex_of_def)

theorem non_read_message_fails_encoder_and_is_skipped_by_tagger_witness:
  "stereo_run (example_externals 250) [NonReadMessage 1, ReadMessage (example_read ''A'')] example_node =
     Inl bad_variant_access \<and>
   tagger_run [Deliver (OtherMessage 2), CheckDuplex 9] waiting_for_duplex =
     tagger_run [CheckDuplex 9] waiting_for_duplex"
  using non_read_message_fails_encoder_and_is_skipped_by_tagger
          [of "example_externals 250" 1 example_node "[ReadMessage (example_read ''A'')]" 2
              waiting_for_duplex "[CheckDuplex 9]"]
  by simp

end
